theory Spec2Isabelle
  imports Main "HOL-Library.AList"
begin

section \<open>JavaScript values\<close>

text \<open>
  The extractor works on the plain JavaScript values that the XML parser hands it
  (options \<^verbatim>\<open>explicitArray: false, mergeAttrs: false, ignoreAttrs: false\<close>):
  an element is a string (its text, \<^verbatim>\<open>''\<close> for an empty tag without attributes) or
  an object whose key \<^verbatim>\<open>$\<close> holds the attributes and whose other keys hold the
  children by element name, a single child as the value itself and repeated children as
  an array. An object is an association list in insertion order, which is the order of
  \<^verbatim>\<open>Object.keys\<close> (no key of a parse tree is an array index). The objects the
  extractor changes are the ones it has just created, and it shares the others with its
  input without writing to them, so values stand for references.

  The source file holds two variants of the class. The model follows the later one, the
  one with the private methods; the earlier one inlines the same steps, kind by kind.
\<close>

datatype jsval =
    JUndefined
  | JNull
  | JStr string
  | JArr "jsval list"
  | JObj "(string \<times> jsval) list"

type_synonym jsobj = "(string \<times> jsval) list"

datatype error =
    TypeError
  | Error string
  | IOError string
  | ParseError string
  | BuildError string

type_synonym console = "string list"

fun nullish :: "jsval \<Rightarrow> bool" where
  "nullish JUndefined = True"
| "nullish JNull = True"
| "nullish _ = False"

text \<open>\<^verbatim>\<open>Boolean(v)\<close>, the test of \<^verbatim>\<open>if (v)\<close>, \<^verbatim>\<open>!v\<close> and \<^verbatim>\<open>v || w\<close>.\<close>

fun truthy :: "jsval \<Rightarrow> bool" where
  "truthy JUndefined = False"
| "truthy JNull = False"
| "truthy (JStr s) = (s \<noteq> [])"
| "truthy (JArr xs) = True"
| "truthy (JObj kvs) = True"

text \<open>
  \<^verbatim>\<open>v[k]\<close> and \<^verbatim>\<open>v.k\<close>: a TypeError on \<^verbatim>\<open>undefined\<close> and \<^verbatim>\<open>null\<close>, the own
  entry of an object, and \<^verbatim>\<open>undefined\<close> otherwise. The keys this program reads are
  element and attribute names, none of them a built-in property of strings, arrays or
  \<^verbatim>\<open>Object.prototype\<close>.
\<close>

fun get_prop :: "jsval \<Rightarrow> string \<Rightarrow> error + jsval" where
  "get_prop JUndefined k = Inl TypeError"
| "get_prop JNull k = Inl TypeError"
| "get_prop (JObj kvs) k = Inr (case map_of kvs k of Some v \<Rightarrow> v | None \<Rightarrow> JUndefined)"
| "get_prop (JStr s) k = Inr JUndefined"
| "get_prop (JArr xs) k = Inr JUndefined"

text \<open>\<^verbatim>\<open>v?.[k]\<close> and \<^verbatim>\<open>v?.k\<close>: \<^verbatim>\<open>undefined\<close> where \<^verbatim>\<open>v[k]\<close> would throw.\<close>

fun opt_prop :: "jsval \<Rightarrow> string \<Rightarrow> jsval" where
  "opt_prop (JObj kvs) k = (case map_of kvs k of Some v \<Rightarrow> v | None \<Rightarrow> JUndefined)"
| "opt_prop _ k = JUndefined"

fun join_with :: "string \<Rightarrow> string list \<Rightarrow> string" where
  "join_with sep [] = []"
| "join_with sep [s] = s"
| "join_with sep (s # t # ts) = s @ sep @ join_with sep (t # ts)"

text \<open>
  The string a template literal puts for a value (of an object without a
  \<^verbatim>\<open>toString\<close> or \<^verbatim>\<open>valueOf\<close> entry of its own).
\<close>

fun toString :: "jsval \<Rightarrow> string" where
  "toString JUndefined = ''undefined''"
| "toString JNull = ''null''"
| "toString (JStr s) = s"
| "toString (JArr xs) = join_with '','' (map (\<lambda>x. if nullish x then [] else toString x) xs)"
| "toString (JObj kvs) = ''[object Object]''"

fun digit_char :: "nat \<Rightarrow> char" where
  "digit_char n = char_of (48 + n)"

fun show_nat :: "nat \<Rightarrow> string" where
  "show_nat n = (if n < 10 then [digit_char n] else show_nat (n div 10) @ [digit_char (n mod 10)])"

declare show_nat.simps [simp del]

text \<open>\<^verbatim>\<open>s.charAt(0).toUpperCase() + s.slice(1)\<close>, on ASCII.\<close>

definition toUpperCase_char :: "char \<Rightarrow> char" where
  "toUpperCase_char c =
     (let n = (of_char c :: nat) in if 97 \<le> n \<and> n \<le> 122 then char_of (n - 32) else c)"

fun capitalize :: "string \<Rightarrow> string" where
  "capitalize [] = []"
| "capitalize (c # cs) = toUpperCase_char c # cs"

section \<open>Constants of the extractor\<close>

abbreviation ACTIVITY :: string where "ACTIVITY \<equiv> ''activity''"
abbreviation SERVICE :: string where "SERVICE \<equiv> ''service''"
abbreviation RECEIVER :: string where "RECEIVER \<equiv> ''receiver''"
abbreviation PROVIDER :: string where "PROVIDER \<equiv> ''provider''"
abbreviation EXPORTED :: string where "EXPORTED \<equiv> ''android:exported''"
abbreviation NAME :: string where "NAME \<equiv> ''android:name''"

definition componentTypes :: "string list" where
  "componentTypes = [ACTIVITY, SERVICE, RECEIVER, PROVIDER]"

definition permissionTypes :: "string list" where
  "permissionTypes = [''permission'', ''uses-permission'']"

text \<open>The icons and the other signs of the log lines, as their UTF-8 bytes.\<close>

definition icon_phone :: string where
  "icon_phone = [CHR 0xF0, CHR 0x9F, CHR 0x93, CHR 0xB1]"
definition icon_wrench :: string where
  "icon_wrench = [CHR 0xF0, CHR 0x9F, CHR 0x94, CHR 0xA7]"
definition icon_antenna :: string where
  "icon_antenna = [CHR 0xF0, CHR 0x9F, CHR 0x93, CHR 0xA1]"
definition icon_cabinet :: string where
  "icon_cabinet = [CHR 0xF0, CHR 0x9F, CHR 0x97, CHR 0x84, CHR 0xEF, CHR 0xB8, CHR 0x8F]"
definition icon_book :: string where
  "icon_book = [CHR 0xF0, CHR 0x9F, CHR 0x93, CHR 0x96]"
definition icon_memo :: string where
  "icon_memo = [CHR 0xF0, CHR 0x9F, CHR 0x93, CHR 0x9D]"
definition icon_glass :: string where
  "icon_glass = [CHR 0xF0, CHR 0x9F, CHR 0x94, CHR 0x8D]"
definition icon_check :: string where
  "icon_check = [CHR 0xE2, CHR 0x9C, CHR 0x85]"

definition COMPONENT_ICONS :: "(string \<times> string) list" where
  "COMPONENT_ICONS =
     [(ACTIVITY, icon_phone), (SERVICE, icon_wrench),
      (RECEIVER, icon_antenna), (PROVIDER, icon_cabinet)]"

section \<open>The export filter\<close>

definition logIfVerbose :: "bool \<Rightarrow> string \<Rightarrow> console \<Rightarrow> console" where
  "logIfVerbose verbose message con = (if verbose then con @ [message] else con)"

fun normalizeToArray :: "jsval \<Rightarrow> jsval list" where
  "normalizeToArray (JArr xs) = xs"
| "normalizeToArray v = [v]"

definition isComponentExported :: "jsval \<Rightarrow> error + bool" where
  "isComponentExported component =
     (case get_prop component ''$'' of
        Inl e \<Rightarrow> Inl e
      | Inr attrs \<Rightarrow>
          (let exportedAttribute = opt_prop attrs EXPORTED in
           case get_prop component ''intent-filter'' of
             Inl e \<Rightarrow> Inl e
           | Inr f \<Rightarrow>
               (let hasIntentFilter = truthy f in
                if exportedAttribute = JStr ''false'' then Inr False
                else
                  (let isExplicitlyExported = (exportedAttribute = JStr ''true'')
                   in Inr (isExplicitlyExported \<or> hasIntentFilter)))))"

text \<open>The line \<^verbatim>\<open>_logComponentFound\<close> prints.\<close>

definition logComponentFound :: "string \<Rightarrow> jsval \<Rightarrow> error + string" where
  "logComponentFound componentType component =
     (let icon = (case map_of COMPONENT_ICONS componentType of
                    Some i \<Rightarrow> i | None \<Rightarrow> icon_wrench) in
      case get_prop component ''$'' of
        Inl e \<Rightarrow> Inl e
      | Inr attrs \<Rightarrow>
          (let n = opt_prop attrs NAME;
               name = (if truthy n then toString n else ''unnamed'');
               typeLabel = capitalize componentType
           in Inr (''  '' @ icon @ '' '' @ typeLabel @ '': '' @ name)))"

text \<open>
  \<^verbatim>\<open>targetApp[componentType].push(component)\<close>: the target is the object literal of
  \<^verbatim>\<open>_createEmptyManifest\<close>, so an association list; an entry that is not an array
  has no \<^verbatim>\<open>push\<close>.
\<close>

definition push_prop :: "jsobj \<Rightarrow> string \<Rightarrow> jsval \<Rightarrow> error + jsobj" where
  "push_prop obj k v =
     (case map_of obj k of
        Some (JArr xs) \<Rightarrow> Inr (AList.update k (JArr (xs @ [v])) obj)
      | _ \<Rightarrow> Inl TypeError)"

text \<open>
  The loop \<^verbatim>\<open>for (const component of components)\<close> of \<^verbatim>\<open>_extractComponentType\<close>,
  on the target object, the counter \<^verbatim>\<open>found\<close> and the console.
\<close>

fun extract_loop ::
  "string \<Rightarrow> bool \<Rightarrow> jsval list \<Rightarrow> jsobj \<Rightarrow> nat \<Rightarrow> console \<Rightarrow> (error + jsobj \<times> nat) \<times> console"
where
  "extract_loop componentType verbose [] targetApp found con = (Inr (targetApp, found), con)"
| "extract_loop componentType verbose (component # rest) targetApp found con =
     (case isComponentExported component of
        Inl e \<Rightarrow> (Inl e, con)
      | Inr False \<Rightarrow> extract_loop componentType verbose rest targetApp found con
      | Inr True \<Rightarrow>
          (case push_prop targetApp componentType component of
             Inl e \<Rightarrow> (Inl e, con)
           | Inr targetApp' \<Rightarrow>
               if verbose then
                 (case logComponentFound componentType component of
                    Inl e \<Rightarrow> (Inl e, con)
                  | Inr line \<Rightarrow>
                      extract_loop componentType verbose rest targetApp' (found + 1) (con @ [line]))
               else extract_loop componentType verbose rest targetApp' (found + 1) con))"

definition extractComponentType ::
  "jsval \<Rightarrow> jsobj \<Rightarrow> string \<Rightarrow> bool \<Rightarrow> console \<Rightarrow> (error + jsobj \<times> nat) \<times> console"
where
  "extractComponentType sourceApp targetApp componentType verbose con =
     (case get_prop sourceApp componentType of
        Inl e \<Rightarrow> (Inl e, con)
      | Inr v \<Rightarrow>
          if \<not> truthy v then (Inr (targetApp, 0), con)
          else extract_loop componentType verbose (normalizeToArray v) targetApp 0 con)"

text \<open>
  \<^verbatim>\<open>Object.keys(application).forEach(key => ...)\<close>: the keys are taken once, the
  entries are looked up in the object as it is by then.
\<close>

fun cleanup_keys :: "string list \<Rightarrow> jsobj \<Rightarrow> jsobj" where
  "cleanup_keys [] application = application"
| "cleanup_keys (key # keys) application =
     cleanup_keys keys
       (if map_of application key = Some (JArr []) then AList.delete key application
        else application)"

definition cleanupEmptyArrays :: "jsobj \<Rightarrow> jsobj" where
  "cleanupEmptyArrays application = cleanup_keys (map fst application) application"

definition createEmptyManifest :: "jsval \<Rightarrow> error + jsobj" where
  "createEmptyManifest manifest =
     (case get_prop manifest ''$'' of
        Inl e \<Rightarrow> Inl e
      | Inr attrs \<Rightarrow>
          (case get_prop manifest ''application'' of
             Inl e \<Rightarrow> Inl e
           | Inr app \<Rightarrow>
               (let appAttrs = opt_prop app ''$'' in
                Inr [(''$'', attrs),
                     (''application'',
                      JObj [(''$'', if truthy appAttrs then appAttrs else JObj []),
                            (ACTIVITY, JArr []),
                            (SERVICE, JArr []),
                            (RECEIVER, JArr []),
                            (PROVIDER, JArr [])])])))"

fun preserve_loop :: "string list \<Rightarrow> jsval \<Rightarrow> jsobj \<Rightarrow> error + jsobj" where
  "preserve_loop [] source target = Inr target"
| "preserve_loop (permissionType # rest) source target =
     (case get_prop source permissionType of
        Inl e \<Rightarrow> Inl e
      | Inr v \<Rightarrow>
          preserve_loop rest source
            (if truthy v then AList.update permissionType (JArr (normalizeToArray v)) target
             else target))"

definition preserveManifestPermissions :: "jsval \<Rightarrow> jsobj \<Rightarrow> error + jsobj" where
  "preserveManifestPermissions source target = preserve_loop permissionTypes source target"

text \<open>
  The loop \<^verbatim>\<open>for (const componentType of componentTypes)\<close> of
  \<^verbatim>\<open>_extractExportedComponents\<close>, on the target application object, the counter
  \<^verbatim>\<open>totalFound\<close> and the console.
\<close>

fun extract_types ::
  "string list \<Rightarrow> jsval \<Rightarrow> jsobj \<Rightarrow> bool \<Rightarrow> nat \<Rightarrow> console \<Rightarrow> (error + jsobj \<times> nat) \<times> console"
where
  "extract_types [] sourceApp targetApp verbose totalFound con =
     (Inr (targetApp, totalFound), con)"
| "extract_types (componentType # rest) sourceApp targetApp verbose totalFound con =
     (case extractComponentType sourceApp targetApp componentType verbose con of
        (Inl e, con') \<Rightarrow> (Inl e, con')
      | (Inr (targetApp', found), con') \<Rightarrow>
          extract_types rest sourceApp targetApp' verbose (totalFound + found) con')"

definition found_line :: "nat \<Rightarrow> string" where
  "found_line totalFound = icon_check @ '' Found '' @ show_nat totalFound @ '' exported components''"

text \<open>
  The body of \<^verbatim>\<open>_extractExportedComponents\<close>. Beside the returned tree it gives the
  value the local variable \<^verbatim>\<open>totalFound\<close> has at the \<^verbatim>\<open>return\<close>; the source
  prints that value and returns the tree alone. \<^verbatim>\<open>extractedManifest.application\<close> is
  the object the loop fills; the model takes it out of the manifest and puts it back.
\<close>

definition extractExportedComponents_body ::
  "jsval \<Rightarrow> bool \<Rightarrow> console \<Rightarrow> (error + jsval \<times> nat) \<times> console"
where
  "extractExportedComponents_body manifest verbose con =
     (case createEmptyManifest manifest of
        Inl e \<Rightarrow> (Inl e, con)
      | Inr em0 \<Rightarrow>
          (case preserveManifestPermissions manifest em0 of
             Inl e \<Rightarrow> (Inl e, con)
           | Inr extractedManifest \<Rightarrow>
               (let con1 = logIfVerbose verbose
                             (icon_glass @ '' Searching for exported components...'') con in
                case get_prop manifest ''application'' of
                  Inl e \<Rightarrow> (Inl e, con1)
                | Inr sourceApp \<Rightarrow>
                    (case map_of extractedManifest ''application'' of
                       Some (JObj targetApp) \<Rightarrow>
                         (case extract_types componentTypes sourceApp targetApp verbose 0 con1 of
                            (Inl e, con2) \<Rightarrow> (Inl e, con2)
                          | (Inr (targetApp', totalFound), con2) \<Rightarrow>
                              (let con3 = logIfVerbose verbose (found_line totalFound) con2 in
                               (Inr (JObj (AList.update ''application''
                                            (JObj (cleanupEmptyArrays targetApp'))
                                            extractedManifest),
                                     totalFound),
                                con3)))
                     | _ \<Rightarrow> (Inl TypeError, con1)))))"

definition extractExportedComponents ::
  "jsval \<Rightarrow> bool \<Rightarrow> console \<Rightarrow> (error + jsval) \<times> console"
where
  "extractExportedComponents manifest verbose con =
     (case extractExportedComponents_body manifest verbose con of
        (Inl e, con') \<Rightarrow> (Inl e, con')
      | (Inr (tree, totalFound), con') \<Rightarrow> (Inr tree, con'))"

section \<open>The pipeline\<close>

text \<open>
  The method \<^verbatim>\<open>extract\<close> is \<open>extract_manifest\<close> here.
  The file system, the XML parser and the XML builder are collaborators from outside the
  repository; the pipeline takes them as parameters. A collaborator that rejects gives
  \<open>Inl\<close> with its diagnostic; a failing write may still have changed the file system.
\<close>

record 'fs collaborators =
  readFile :: "'fs \<Rightarrow> string \<Rightarrow> string + string"
  writeFile :: "'fs \<Rightarrow> string \<Rightarrow> string \<Rightarrow> string option \<times> 'fs"
  parseStringPromise :: "string \<Rightarrow> string + jsval"
  buildObject :: "jsval \<Rightarrow> string + string"

definition no_manifest_message :: string where
  "no_manifest_message = ''Invalid AndroidManifest.xml file - no manifest root element found''"

definition parseManifestFile :: "'fs collaborators \<Rightarrow> string \<Rightarrow> 'fs \<Rightarrow> error + jsval" where
  "parseManifestFile env inputPath fs =
     (case readFile env fs inputPath of
        Inl d \<Rightarrow> Inl (IOError d)
      | Inr xmlContent \<Rightarrow>
          (case parseStringPromise env xmlContent of
             Inl d \<Rightarrow> Inl (ParseError d)
           | Inr result \<Rightarrow>
               if \<not> truthy (opt_prop result ''manifest'') then Inl (Error no_manifest_message)
               else get_prop result ''manifest''))"

definition writeOutputFile ::
  "'fs collaborators \<Rightarrow> string \<Rightarrow> jsval \<Rightarrow> 'fs \<Rightarrow> (error + unit) \<times> 'fs"
where
  "writeOutputFile env outputPath manifest fs =
     (case buildObject env manifest of
        Inl d \<Rightarrow> (Inl (BuildError d), fs)
      | Inr outputXml \<Rightarrow>
          (case writeFile env fs outputPath outputXml of
             (Some d, fs') \<Rightarrow> (Inl (IOError d), fs')
           | (None, fs') \<Rightarrow> (Inr (), fs')))"

definition extract_manifest ::
  "'fs collaborators \<Rightarrow> string \<Rightarrow> string \<Rightarrow> bool \<Rightarrow> 'fs \<times> console \<Rightarrow> (error + unit) \<times> 'fs \<times> console"
where
  "extract_manifest env inputPath outputPath verbose world =
     (case world of (fs, con) \<Rightarrow>
        (let con1 = logIfVerbose verbose
                      (icon_book @ '' Reading AndroidManifest.xml from: '' @ inputPath) con in
         case parseManifestFile env inputPath fs of
           Inl e \<Rightarrow> (Inl e, fs, con1)
         | Inr manifest \<Rightarrow>
             (case extractExportedComponents manifest verbose con1 of
                (Inl e, con2) \<Rightarrow> (Inl e, fs, con2)
              | (Inr extractedManifest, con2) \<Rightarrow>
                  (case writeOutputFile env outputPath extractedManifest fs of
                     (Inl e, fs') \<Rightarrow> (Inl e, fs', con2)
                   | (Inr u, fs') \<Rightarrow>
                       (Inr (), fs',
                        logIfVerbose verbose
                          (icon_memo @ '' Output written to: '' @ outputPath) con2)))))"

section \<open>Parse trees\<close>

text \<open>
  What the parser can produce for an element: a string, or an object with distinct keys
  whose \<^verbatim>\<open>$\<close> entry maps attribute names to strings, whose \<^verbatim>\<open>_\<close> entry is the text,
  and whose other entries are a child element or an array of child elements.
\<close>

fun is_text :: "jsval \<Rightarrow> bool" where
  "is_text (JStr s) = True"
| "is_text _ = False"

fun attribute_map :: "jsval \<Rightarrow> bool" where
  "attribute_map (JObj kvs) = (distinct (map fst kvs) \<and> (\<forall>v \<in> set (map snd kvs). is_text v))"
| "attribute_map _ = False"

fun xml2js_node :: "jsval \<Rightarrow> bool" where
  "xml2js_node (JStr s) = True"
| "xml2js_node (JObj kvs) =
     (distinct (map fst kvs) \<and>
      (\<forall>kv \<in> set kvs.
         if fst kv = ''$'' then attribute_map (snd kv)
         else if fst kv = ''_'' then is_text (snd kv)
         else (case snd kv of
                 JArr xs \<Rightarrow> (\<forall>x \<in> set xs. xml2js_node x)
               | v \<Rightarrow> xml2js_node v)))"
| "xml2js_node _ = False"

text \<open>
  The child elements of a given name, whatever their number: none for a missing entry,
  one for a single value, the members of an array.
\<close>

fun children :: "jsval \<Rightarrow> string \<Rightarrow> jsval list" where
  "children v k =
     (case opt_prop v k of
        JUndefined \<Rightarrow> []
      | JNull \<Rightarrow> []
      | JArr xs \<Rightarrow> xs
      | x \<Rightarrow> [x])"

section \<open>The result in closed form\<close>

text \<open>
  A component is selected when the predicate of the source returns \<^verbatim>\<open>true\<close> on it.
\<close>

definition selected :: "jsval \<Rightarrow> bool" where
  "selected c = (isComponentExported c = Inr True)"

text \<open>
  The values \<^verbatim>\<open>_extractComponentType\<close> iterates over for a kind (none when the entry
  is falsy), and those of them it keeps.
\<close>

definition candidates :: "jsval \<Rightarrow> string \<Rightarrow> jsval list" where
  "candidates app k = (let v = opt_prop app k in if truthy v then normalizeToArray v else [])"

definition kept :: "jsval \<Rightarrow> string \<Rightarrow> jsval list" where
  "kept app k = filter selected (candidates app k)"

text \<open>
  The inputs on which no property read hits \<^verbatim>\<open>undefined\<close> or \<^verbatim>\<open>null\<close>: the
  manifest, its application entry and every candidate component are values.
\<close>

definition extractable :: "jsval \<Rightarrow> bool" where
  "extractable m =
     (\<not> nullish m \<and> \<not> nullish (opt_prop m ''application'') \<and>
      (\<forall>k \<in> set componentTypes. \<forall>c \<in> set (candidates (opt_prop m ''application'') k). \<not> nullish c))"

text \<open>
  The tree and the counter in closed form; \<open>extractExportedComponents_body_char\<close> below
  proves that the source computes exactly these.
\<close>

definition expected_app :: "jsval \<Rightarrow> jsobj" where
  "expected_app app =
     filter (\<lambda>kv. snd kv \<noteq> JArr [])
       ((''$'', if truthy (opt_prop app ''$'') then opt_prop app ''$'' else JObj []) #
        map (\<lambda>k. (k, JArr (kept app k))) componentTypes)"

definition expected_permissions :: "jsval \<Rightarrow> jsobj" where
  "expected_permissions m =
     concat (map (\<lambda>k. if truthy (opt_prop m k) then [(k, JArr (normalizeToArray (opt_prop m k)))] else [])
               permissionTypes)"

definition expected_tree :: "jsval \<Rightarrow> jsval" where
  "expected_tree m =
     JObj ([(''$'', opt_prop m ''$''), (''application'', JObj (expected_app (opt_prop m ''application'')))]
           @ expected_permissions m)"

definition expected_count :: "jsval \<Rightarrow> nat" where
  "expected_count m = sum_list (map (\<lambda>k. length (kept (opt_prop m ''application'') k)) componentTypes)"

text \<open>The number of components in a tree, over the four kinds.\<close>

definition component_count :: "jsval \<Rightarrow> nat" where
  "component_count tree =
     sum_list (map (\<lambda>k. length (children (opt_prop tree ''application'') k)) componentTypes)"

text \<open>An element that carries attributes.\<close>

definition attribute_bearing :: "jsval \<Rightarrow> bool" where
  "attribute_bearing v = (opt_prop v ''$'' \<noteq> JUndefined)"

section \<open>Sample inputs\<close>

text \<open>
  \<^verbatim>\<open><receiver android:name=".SyncReceiver"><intent-filter/></receiver>\<close> as parsed: the
  empty tag without attributes is the empty string.
\<close>

definition receiver_with_empty_filter :: jsval where
  "receiver_with_empty_filter =
     JObj [(''$'', JObj [(NAME, JStr ''.SyncReceiver'')]), (''intent-filter'', JStr [])]"

text \<open>
  \<^verbatim>\<open><manifest package="com.example.app"><uses-permission android:name="android.permission.INTERNET"/></manifest>\<close>
  as parsed: a manifest without an application element.
\<close>

definition manifest_without_application :: jsval where
  "manifest_without_application =
     JObj [(''$'', JObj [(''package'', JStr ''com.example.app'')]),
           (''uses-permission'',
            JObj [(''$'', JObj [(NAME, JStr ''android.permission.INTERNET'')])])]"

text \<open>The end-to-end scenario: two activities, a service, a receiver, a provider, two permissions.\<close>

definition main_activity :: jsval where
  "main_activity = JObj [(''$'', JObj [(NAME, JStr ''.MainActivity''), (EXPORTED, JStr ''false'')])]"

definition exported_activity :: jsval where
  "exported_activity =
     JObj [(''$'', JObj [(NAME, JStr ''.ExportedActivity''), (EXPORTED, JStr ''true'')]),
           (''intent-filter'',
            JObj [(''action'', JObj [(''$'', JObj [(NAME, JStr ''android.intent.action.VIEW'')])])])]"

definition background_service :: jsval where
  "background_service =
     JObj [(''$'', JObj [(NAME, JStr ''.BackgroundService''), (EXPORTED, JStr ''false'')])]"

definition boot_receiver :: jsval where
  "boot_receiver =
     JObj [(''$'', JObj [(NAME, JStr ''.BootReceiver''), (EXPORTED, JStr ''true'')]),
           (''intent-filter'',
            JObj [(''action'',
                   JObj [(''$'', JObj [(NAME, JStr ''android.intent.action.BOOT_COMPLETED'')])])])]"

definition data_provider :: jsval where
  "data_provider = JObj [(''$'', JObj [(NAME, JStr ''.DataProvider'')])]"

definition internet_permission :: jsval where
  "internet_permission = JObj [(''$'', JObj [(NAME, JStr ''android.permission.INTERNET'')])]"

definition boot_permission :: jsval where
  "boot_permission =
     JObj [(''$'', JObj [(NAME, JStr ''android.permission.RECEIVE_BOOT_COMPLETED'')])]"

definition scenario_manifest :: jsval where
  "scenario_manifest =
     JObj [(''$'', JObj [(''package'', JStr ''com.example.app'')]),
           (''uses-permission'', JArr [internet_permission, boot_permission]),
           (''application'',
            JObj [(''$'', JObj [(''android:label'', JStr ''Example'')]),
                  (ACTIVITY, JArr [main_activity, exported_activity]),
                  (SERVICE, background_service),
                  (RECEIVER, boot_receiver),
                  (PROVIDER, data_provider)])]"

definition scenario_output :: jsval where
  "scenario_output =
     JObj [(''$'', JObj [(''package'', JStr ''com.example.app'')]),
           (''application'',
            JObj [(''$'', JObj [(''android:label'', JStr ''Example'')]),
                  (ACTIVITY, JArr [exported_activity]),
                  (RECEIVER, JArr [boot_receiver])]),
           (''uses-permission'', JArr [internet_permission, boot_permission])]"

text \<open>
  The ordering example: a service written before the activities A (exported), A2 (no
  intent filter) and A3 (an intent filter).
\<close>

definition activity_A :: jsval where
  "activity_A = JObj [(''$'', JObj [(NAME, JStr ''A''), (EXPORTED, JStr ''true'')])]"

definition activity_A2 :: jsval where
  "activity_A2 = JObj [(''$'', JObj [(NAME, JStr ''A2'')])]"

definition activity_A3 :: jsval where
  "activity_A3 =
     JObj [(''$'', JObj [(NAME, JStr ''A3'')]),
           (''intent-filter'',
            JObj [(''action'', JObj [(''$'', JObj [(NAME, JStr ''android.intent.action.MAIN'')])])])]"

definition service_S :: jsval where
  "service_S = JObj [(''$'', JObj [(NAME, JStr ''S''), (EXPORTED, JStr ''true'')])]"

definition ordering_manifest :: jsval where
  "ordering_manifest =
     JObj [(''application'',
            JObj [(SERVICE, service_S),
                  (ACTIVITY, JArr [activity_A, activity_A2, activity_A3])])]"

text \<open>
  A manifest with children the filter does not copy, \<^verbatim>\<open>uses-sdk\<close> under the manifest
  and \<^verbatim>\<open>meta-data\<close> under the application, and the tree the filter makes of it.
\<close>

definition manifest_with_extras :: jsval where
  "manifest_with_extras =
     JObj [(''$'', JObj [(''package'', JStr ''com.example.app'')]),
           (''uses-sdk'', JObj [(''$'', JObj [(''android:minSdkVersion'', JStr ''21'')])]),
           (''permission'', JObj [(''$'', JObj [(NAME, JStr ''com.example.app.READ'')])]),
           (''application'',
            JObj [(''$'', JObj [(''android:label'', JStr ''Example'')]),
                  (''meta-data'', JObj [(''$'', JObj [(NAME, JStr ''key'')])]),
                  (PROVIDER, JObj [(''$'', JObj [(NAME, JStr ''.P''), (EXPORTED, JStr ''true'')])])])]"

definition extras_output :: jsval where
  "extras_output =
     JObj [(''$'', JObj [(''package'', JStr ''com.example.app'')]),
           (''application'',
            JObj [(''$'', JObj [(''android:label'', JStr ''Example'')]),
                  (PROVIDER,
                   JArr [JObj [(''$'', JObj [(NAME, JStr ''.P''), (EXPORTED, JStr ''true'')])]])]),
           (''permission'',
            JArr [JObj [(''$'', JObj [(NAME, JStr ''com.example.app.READ'')])]])]"

text \<open>
  \<^verbatim>\<open><manifest package="com.example.app"><permission/><application android:label="Example"/></manifest>\<close>
  as parsed: the one permission element is an empty tag without attributes, so the empty
  string.
\<close>

definition manifest_with_bare_permission :: jsval where
  "manifest_with_bare_permission =
     JObj [(''$'', JObj [(''package'', JStr ''com.example.app'')]),
           (''permission'', JStr []),
           (''application'', JObj [(''$'', JObj [(''android:label'', JStr ''Example'')])])]"

text \<open>
  An environment to run the pipeline in. Files are a map from paths to contents: reading
  a path that is not there fails, writing succeeds. The parser is given by its answers on
  four texts: it resolves \<^verbatim>\<open>null\<close> on the empty text, resolves the object of the root
  on a well-formed text, and rejects the unterminated \<^verbatim>\<open><manifest><application>\<close> with
  the diagnostic of its tokenizer, position lines included. Its answers on other texts,
  and the builder, are left unspecified: no run below reaches them.
\<close>

definition parser_answers :: "(string \<times> (string + jsval)) list" where
  "parser_answers =
     [([], Inr JNull),
      (''<root></root>'', Inr (JObj [(''root'', JStr [])])),
      (''<manifest><uses-sdk/></manifest>'',
       Inr (JObj [(''manifest'', JObj [(''uses-sdk'', JStr [])])])),
      (''<manifest><application>'',
       Inl (''Unclosed root tag'' @ [CHR 0x0A] @ ''Line: 0'' @ [CHR 0x0A] @
            ''Column: 23'' @ [CHR 0x0A] @ ''Char: ''))]"

definition sample_env :: "(string \<rightharpoonup> string) collaborators" where
  "sample_env =
     \<lparr> readFile =
         (\<lambda>fs path. case fs path of
              None \<Rightarrow> Inl (''ENOENT: no such file or directory, open '' @
                             [CHR 0x27] @ path @ [CHR 0x27])
            | Some text \<Rightarrow> Inr text),
       writeFile = (\<lambda>fs path text. (None, fs(path \<mapsto> text))),
       parseStringPromise =
         (\<lambda>text. case map_of parser_answers text of
              Some answer \<Rightarrow> answer
            | None \<Rightarrow> undefined),
       buildObject = undefined \<rparr>"

definition sample_files :: "string \<Rightarrow> string \<rightharpoonup> string" where
  "sample_files text = [''AndroidManifest.xml'' \<mapsto> text]"

section \<open>Properties of the filter\<close>

subsection \<open>The predicate and the loops\<close>

lemma isComponentExported_nullish: "nullish c \<Longrightarrow> isComponentExported c = Inl TypeError"
  by (cases c) (simp_all add: isComponentExported_def)

lemma isComponentExported_total: "\<not> nullish c \<Longrightarrow> isComponentExported c = Inr (selected c)"
  by (cases c) (auto simp: isComponentExported_def selected_def Let_def)

lemma logComponentFound_total: "\<not> nullish c \<Longrightarrow> \<exists>l. logComponentFound k c = Inr l"
  by (cases c) (simp_all add: logComponentFound_def Let_def)

lemma extract_loop_ok:
  assumes "\<forall>c \<in> set cs. \<not> nullish c" and "map_of t k = Some (JArr xs)"
  shows "fst (extract_loop k v cs t n con) =
           Inr (AList.update k (JArr (xs @ filter selected cs)) t, n + length (filter selected cs))"
  using assms
proof (induction cs arbitrary: t n con xs)
  case Nil
  then show ?case by (simp add: update_triv)
next
  case (Cons c cs)
  then have c: "isComponentExported c = Inr (selected c)" and rest: "\<forall>c \<in> set cs. \<not> nullish c"
    by (simp_all add: isComponentExported_total)
  show ?case
  proof (cases "selected c")
    case False
    with c Cons.IH [OF rest Cons.prems(2)] show ?thesis by simp
  next
    case True
    let ?t = "AList.update k (JArr (xs @ [c])) t"
    have p: "push_prop t k c = Inr ?t" using Cons.prems(2) by (simp add: push_prop_def)
    have m: "map_of ?t k = Some (JArr (xs @ [c]))" by (simp add: update_conv')
    obtain l where l: "logComponentFound k c = Inr l"
      using logComponentFound_total [of c k] Cons.prems(1) by auto
    show ?thesis using True c p l Cons.IH [OF rest m] by (cases v) simp_all
  qed
qed

lemma extract_loop_fail:
  assumes "\<exists>c \<in> set cs. nullish c" and "map_of t k = Some (JArr xs)"
  shows "fst (extract_loop k v cs t n con) = Inl TypeError"
  using assms
proof (induction cs arbitrary: t n con xs)
  case Nil
  then show ?case by simp
next
  case (Cons c cs)
  show ?case
  proof (cases "nullish c")
    case True
    then show ?thesis by (simp add: isComponentExported_nullish)
  next
    case False
    then have c: "isComponentExported c = Inr (selected c)" and rest: "\<exists>c \<in> set cs. nullish c"
      using Cons.prems(1) by (auto simp: isComponentExported_total)
    show ?thesis
    proof (cases "selected c")
      case False
      with c Cons.IH [OF rest Cons.prems(2)] show ?thesis by simp
    next
      case True
      let ?t = "AList.update k (JArr (xs @ [c])) t"
      have p: "push_prop t k c = Inr ?t" using Cons.prems(2) by (simp add: push_prop_def)
      have m: "map_of ?t k = Some (JArr (xs @ [c]))" by (simp add: update_conv')
      obtain l where l: "logComponentFound k c = Inr l"
        using logComponentFound_total [of c k] \<open>\<not> nullish c\<close> by auto
      show ?thesis using True c p l Cons.IH [OF rest m] by (cases v) simp_all
    qed
  qed
qed

lemma get_prop_opt: "\<not> nullish v \<Longrightarrow> get_prop v k = Inr (opt_prop v k)"
  by (cases v) simp_all

lemma get_prop_nullish: "nullish v \<Longrightarrow> get_prop v k = Inl TypeError"
  by (cases v) simp_all

lemma extractComponentType_char:
  assumes "\<not> nullish s" and "map_of t k = Some (JArr xs)"
  shows "fst (extractComponentType s t k v con) =
           (if \<forall>c \<in> set (candidates s k). \<not> nullish c
            then Inr (AList.update k (JArr (xs @ kept s k)) t, length (kept s k))
            else Inl TypeError)"
proof (cases "truthy (opt_prop s k)")
  case False
  then show ?thesis using assms
    by (simp add: extractComponentType_def get_prop_opt candidates_def kept_def update_triv)
next
  case True
  show ?thesis
  proof (cases "\<forall>c \<in> set (normalizeToArray (opt_prop s k)). \<not> nullish c")
    case ok: True
    show ?thesis
      using True ok assms extract_loop_ok [OF ok assms(2), of v 0 con]
      by (simp add: extractComponentType_def get_prop_opt candidates_def kept_def)
  next
    case bad: False
    then have "\<exists>c \<in> set (normalizeToArray (opt_prop s k)). nullish c" by blast
    from extract_loop_fail [OF this assms(2), of v 0 con] True bad assms show ?thesis
      by (simp add: extractComponentType_def get_prop_opt candidates_def kept_def)
  qed
qed

subsection \<open>Removing the empty arrays\<close>

lemma cleanup_keys_filter:
  "distinct (map fst app) \<Longrightarrow>
   cleanup_keys ks app = filter (\<lambda>kv. \<not> (fst kv \<in> set ks \<and> snd kv = JArr [])) app"
proof (induction ks arbitrary: app)
  case Nil
  then show ?case by simp
next
  case (Cons k ks)
  show ?case
  proof (cases "map_of app k = Some (JArr [])")
    case True
    have d: "distinct (map fst (AList.delete k app))"
      using Cons.prems by (rule distinct_delete)
    have "cleanup_keys (k # ks) app = cleanup_keys ks (AList.delete k app)"
      using True by simp
    also have "\<dots> = filter (\<lambda>kv. \<not> (fst kv \<in> set ks \<and> snd kv = JArr [])) (AList.delete k app)"
      by (rule Cons.IH [OF d])
    also have "\<dots> = filter (\<lambda>kv. \<not> (fst kv \<in> set (k # ks) \<and> snd kv = JArr [])) app"
      unfolding AList.delete_eq filter_filter
    proof (rule filter_cong [OF refl])
      fix kv assume "kv \<in> set app"
      then have "(fst kv, snd kv) \<in> set app" by simp
      then have "map_of app (fst kv) = Some (snd kv)"
        using Cons.prems by (simp only: map_of_eq_Some_iff)
      then have "fst kv = k \<Longrightarrow> snd kv = JArr []"
        using True by simp
      then show "(case kv of (k', uu) \<Rightarrow> k \<noteq> k') \<and> \<not> (fst kv \<in> set ks \<and> snd kv = JArr []) \<longleftrightarrow>
                 \<not> (fst kv \<in> set (k # ks) \<and> snd kv = JArr [])"
        by (cases kv) auto
    qed
    finally show ?thesis .
  next
    case False
    have "cleanup_keys (k # ks) app = cleanup_keys ks app"
      using False by simp
    also have "\<dots> = filter (\<lambda>kv. \<not> (fst kv \<in> set ks \<and> snd kv = JArr [])) app"
      by (rule Cons.IH [OF Cons.prems])
    also have "\<dots> = filter (\<lambda>kv. \<not> (fst kv \<in> set (k # ks) \<and> snd kv = JArr [])) app"
    proof (rule filter_cong [OF refl])
      fix kv assume "kv \<in> set app"
      then have "(fst kv, snd kv) \<in> set app" by simp
      then have "map_of app (fst kv) = Some (snd kv)"
        using Cons.prems by (simp only: map_of_eq_Some_iff)
      then have "fst kv = k \<Longrightarrow> snd kv \<noteq> JArr []"
        using False by auto
      then show "\<not> (fst kv \<in> set ks \<and> snd kv = JArr []) \<longleftrightarrow>
                 \<not> (fst kv \<in> set (k # ks) \<and> snd kv = JArr [])"
        by auto
    qed
    finally show ?thesis .
  qed
qed

lemma cleanupEmptyArrays_filter:
  "distinct (map fst app) \<Longrightarrow> cleanupEmptyArrays app = filter (\<lambda>kv. snd kv \<noteq> JArr []) app"
proof -
  assume d: "distinct (map fst app)"
  have "filter (\<lambda>kv. \<not> (fst kv \<in> set (map fst app) \<and> snd kv = JArr [])) app =
        filter (\<lambda>kv. snd kv \<noteq> JArr []) app"
    by (rule filter_cong [OF refl]) auto
  then show ?thesis
    unfolding cleanupEmptyArrays_def by (simp only: cleanup_keys_filter [OF d])
qed

subsection \<open>The extraction computes the closed form\<close>

lemma extract_types_char:
  assumes "\<not> nullish s" and "distinct ks" and "\<forall>k \<in> set ks. map_of t k = Some (JArr [])"
  shows "fst (extract_types ks s t v n con) =
           (if \<forall>k \<in> set ks. \<forall>c \<in> set (candidates s k). \<not> nullish c
            then Inr (fold (\<lambda>k. AList.update k (JArr (kept s k))) ks t,
                      n + sum_list (map (\<lambda>k. length (kept s k)) ks))
            else Inl TypeError)"
  using assms(2,3)
proof (induction ks arbitrary: t n con)
  case Nil
  then show ?case by simp
next
  case (Cons k ks)
  obtain r c' where step: "extractComponentType s t k v con = (r, c')"
    by (cases "extractComponentType s t k v con") auto
  have here: "map_of t k = Some (JArr [])" using Cons.prems(2) by simp
  have r: "r = (if \<forall>c \<in> set (candidates s k). \<not> nullish c
                then Inr (AList.update k (JArr (kept s k)) t, length (kept s k))
                else Inl TypeError)"
    using extractComponentType_char [OF assms(1) here, of v con] step by simp
  show ?case
  proof (cases "\<forall>c \<in> set (candidates s k). \<not> nullish c")
    case False
    with r step show ?thesis by auto
  next
    case True
    let ?t = "AList.update k (JArr (kept s k)) t"
    have d: "distinct ks" and notin: "k \<notin> set ks" using Cons.prems(1) by simp_all
    have inv: "\<forall>k' \<in> set ks. map_of ?t k' = Some (JArr [])"
      using Cons.prems(2) notin by (auto simp: update_conv')
    have "fst (extract_types (k # ks) s t v n con) =
          fst (extract_types ks s ?t v (n + length (kept s k)) c')"
      using r step True by simp
    also note Cons.IH [OF d inv, of "n + length (kept s k)" c']
    finally show ?thesis using True by (simp add: add.assoc)
  qed
qed

lemma createEmptyManifest_ok:
  "\<not> nullish m \<Longrightarrow>
   createEmptyManifest m =
     Inr [(''$'', opt_prop m ''$''),
          (''application'',
           JObj [(''$'', if truthy (opt_prop (opt_prop m ''application'') ''$'')
                         then opt_prop (opt_prop m ''application'') ''$'' else JObj []),
                 (ACTIVITY, JArr []), (SERVICE, JArr []), (RECEIVER, JArr []), (PROVIDER, JArr [])])]"
  by (simp add: createEmptyManifest_def get_prop_opt)

lemma preserveManifestPermissions_ok:
  "\<not> nullish m \<Longrightarrow>
   preserveManifestPermissions m [(''$'', a), (''application'', b)] =
     Inr ([(''$'', a), (''application'', b)] @ expected_permissions m)"
  by (simp add: preserveManifestPermissions_def permissionTypes_def get_prop_opt
        expected_permissions_def)

lemma extractExportedComponents_body_char:
  "fst (extractExportedComponents_body m v con) =
     (if extractable m then Inr (expected_tree m, expected_count m) else Inl TypeError)"
proof (cases "nullish m")
  case True
  then show ?thesis
    by (simp add: extractExportedComponents_body_def createEmptyManifest_def get_prop_nullish
          extractable_def)
next
  case m: False
  let ?app = "opt_prop m ''application''"
  let ?a = "if truthy (opt_prop ?app ''$'') then opt_prop ?app ''$'' else JObj []"
  let ?t0 = "[(''$'', ?a), (ACTIVITY, JArr []), (SERVICE, JArr []), (RECEIVER, JArr []),
              (PROVIDER, JArr [])]"
  let ?con1 = "logIfVerbose v (icon_glass @ '' Searching for exported components...'') con"
  obtain r c2 where loop: "extract_types componentTypes ?app ?t0 v 0 ?con1 = (r, c2)"
    by (cases "extract_types componentTypes ?app ?t0 v 0 ?con1") auto
  have pre: "extractExportedComponents_body m v con =
       (case r of
          Inl e \<Rightarrow> (Inl e, c2)
        | Inr (targetApp', totalFound) \<Rightarrow>
            (Inr (JObj ([(''$'', opt_prop m ''$''),
                         (''application'', JObj (cleanupEmptyArrays targetApp'))]
                        @ expected_permissions m),
                  totalFound),
             logIfVerbose v (found_line totalFound) c2))"
    using m loop
    by (simp add: extractExportedComponents_body_def createEmptyManifest_ok
          preserveManifestPermissions_ok get_prop_opt Let_def split: sum.splits prod.splits)
  show ?thesis
  proof (cases "nullish ?app")
    case True
    have "extractComponentType ?app ?t0 ACTIVITY v ?con1 = (Inl TypeError, ?con1)"
      using True by (simp add: extractComponentType_def get_prop_nullish)
    then have "r = Inl TypeError" using loop by (simp add: componentTypes_def)
    then show ?thesis using pre True by (simp add: extractable_def)
  next
    case app: False
    have r: "r = (if \<forall>k \<in> set componentTypes. \<forall>c \<in> set (candidates ?app k). \<not> nullish c
                  then Inr (fold (\<lambda>k. AList.update k (JArr (kept ?app k))) componentTypes ?t0,
                            0 + sum_list (map (\<lambda>k. length (kept ?app k)) componentTypes))
                  else Inl TypeError)"
      using extract_types_char [OF app, of componentTypes ?t0 v 0 ?con1] loop
      by (simp add: componentTypes_def)
    show ?thesis
    proof (cases "extractable m")
      case False
      then have "\<not> (\<forall>k \<in> set componentTypes. \<forall>c \<in> set (candidates ?app k). \<not> nullish c)"
        using m app unfolding extractable_def by blast
      then have "r = Inl TypeError" using r by (simp only: if_False)
      then show ?thesis using pre False by simp
    next
      case True
      then have ok: "\<forall>k \<in> set componentTypes. \<forall>c \<in> set (candidates ?app k). \<not> nullish c"
        by (simp add: extractable_def)
      let ?t4 = "(''$'', ?a) # map (\<lambda>k. (k, JArr (kept ?app k))) componentTypes"
      have f: "fold (\<lambda>k. AList.update k (JArr (kept ?app k))) componentTypes ?t0 = ?t4"
        by (simp add: componentTypes_def)
      have d: "distinct (map fst ?t4)" by (simp add: componentTypes_def)
      have c: "cleanupEmptyArrays ?t4 = expected_app ?app"
        unfolding cleanupEmptyArrays_filter [OF d] expected_app_def ..
      have "r = Inr (?t4, expected_count m)"
        using r unfolding f expected_count_def by (simp only: if_P [OF ok] add_0)
      then show ?thesis using pre True c
        by (simp add: expected_tree_def)
    qed
  qed
qed

subsection \<open>Reading the closed form\<close>

lemma selected_filter_children: "filter selected (children app k) = kept app k"
proof (cases "opt_prop app k")
  case (JStr s)
  then show ?thesis
    by (cases "s = []") (simp_all add: kept_def candidates_def selected_def isComponentExported_def)
qed (simp_all add: kept_def candidates_def)

lemma filter_kept [simp]: "filter selected (kept app k) = kept app k"
  by (simp add: kept_def)

lemma lookup_filtered:
  assumes "distinct (map fst al)"
  shows "map_of (filter Q al) key =
           Option.bind (map_of al key) (\<lambda>val. if Q (key, val) then Some val else None)"
  using assms
proof (induction al)
  case Nil
  show ?case by simp
next
  case (Cons entry al)
  have fresh: "map_of al (fst entry) = None"
    using Cons.prems by (simp add: map_of_eq_None_iff)
  have rest: "distinct (map fst al)" using Cons.prems by simp
  show ?case
  proof (cases "key = fst entry")
    case True
    with fresh Cons.IH [OF rest] show ?thesis by (cases entry) auto
  next
    case False
    with Cons.IH [OF rest] show ?thesis by (cases entry) auto
  qed
qed

lemma map_of_tabulate:
  "map_of (map (\<lambda>k. (k, f k)) ks) k = (if k \<in> set ks then Some (f k) else None)"
  by (induction ks) auto

lemma expected_app_distinct:
  "distinct (map fst ((''$'', a) # map (\<lambda>k. (k, f k)) componentTypes))"
  by (simp add: componentTypes_def)

lemma map_of_expected_app:
  "map_of (expected_app app) k =
     (if k = ''$'' then
        (let a = (if truthy (opt_prop app ''$'') then opt_prop app ''$'' else JObj [])
         in if a = JArr [] then None else Some a)
      else if k \<in> set componentTypes then
        (if kept app k = [] then None else Some (JArr (kept app k)))
      else None)"
  unfolding expected_app_def lookup_filtered [OF expected_app_distinct]
  by (simp add: map_of_tabulate Let_def)

lemma opt_prop_expected_app:
  assumes "k \<in> set componentTypes"
  shows "opt_prop (JObj (expected_app app)) k =
           (if kept app k = [] then JUndefined else JArr (kept app k))"
proof -
  have "k \<noteq> ''$''" using assms by (auto simp: componentTypes_def)
  then show ?thesis using assms by (simp add: map_of_expected_app)
qed

lemma opt_prop_expected_app_attrs:
  assumes "opt_prop app ''$'' \<noteq> JArr []"
  shows "opt_prop (JObj (expected_app app)) ''$'' =
           (if truthy (opt_prop app ''$'') then opt_prop app ''$'' else JObj [])"
  using assms by (simp add: map_of_expected_app)

lemma children_expected_app:
  "k \<in> set componentTypes \<Longrightarrow> children (JObj (expected_app app)) k = kept app k"
  by (simp add: opt_prop_expected_app del: opt_prop.simps)

lemma candidates_expected_app:
  "k \<in> set componentTypes \<Longrightarrow> candidates (JObj (expected_app app)) k = kept app k"
  by (simp add: opt_prop_expected_app candidates_def del: opt_prop.simps)

lemma kept_expected_app:
  "k \<in> set componentTypes \<Longrightarrow> kept (JObj (expected_app app)) k = kept app k"
  using candidates_expected_app [of k app] by (simp add: kept_def)

lemma keys_expected_app:
  assumes "opt_prop app ''$'' \<noteq> JArr []"
  shows "map fst (expected_app app) = ''$'' # filter (\<lambda>k. kept app k \<noteq> []) componentTypes"
proof -
  have "map fst (filter (\<lambda>kv. snd kv \<noteq> JArr []) (map (\<lambda>k. (k, JArr (kept app k))) ks)) =
        filter (\<lambda>k. kept app k \<noteq> []) ks" for ks
    by (induction ks) auto
  then show ?thesis using assms by (simp add: expected_app_def)
qed

lemma expected_app_idem:
  assumes "opt_prop app ''$'' \<noteq> JArr []"
  shows "expected_app (JObj (expected_app app)) = expected_app app"
proof -
  let ?a = "if truthy (opt_prop app ''$'') then opt_prop app ''$'' else JObj []"
  have a: "opt_prop (JObj (expected_app app)) ''$'' = ?a"
    by (rule opt_prop_expected_app_attrs [OF assms])
  have t: "truthy ?a" by simp
  have k: "map (\<lambda>k. (k, JArr (kept (JObj (expected_app app)) k))) componentTypes =
           map (\<lambda>k. (k, JArr (kept app k))) componentTypes"
    by (rule map_cong [OF refl]) (simp add: kept_expected_app)
  show ?thesis
    unfolding expected_app_def [of "JObj (expected_app app)"] a k
    using t by (simp add: expected_app_def)
qed

lemma opt_prop_expected_tree [simp]:
  "opt_prop (expected_tree m) ''$'' = opt_prop m ''$''"
  "opt_prop (expected_tree m) ''application'' = JObj (expected_app (opt_prop m ''application''))"
  by (simp_all add: expected_tree_def)

lemma opt_prop_expected_tree_perm:
  assumes "k \<in> set permissionTypes"
  shows "opt_prop (expected_tree m) k =
           (if truthy (opt_prop m k) then JArr (normalizeToArray (opt_prop m k)) else JUndefined)"
  using assms by (auto simp: expected_tree_def expected_permissions_def permissionTypes_def)

lemma expected_permissions_idem:
  "expected_permissions (expected_tree m) = expected_permissions m"
proof -
  have "map (\<lambda>k. if truthy (opt_prop (expected_tree m) k)
                  then [(k, JArr (normalizeToArray (opt_prop (expected_tree m) k)))] else [])
          permissionTypes =
        map (\<lambda>k. if truthy (opt_prop m k) then [(k, JArr (normalizeToArray (opt_prop m k)))] else [])
          permissionTypes"
    by (rule map_cong [OF refl]) (simp add: opt_prop_expected_tree_perm)
  then show ?thesis unfolding expected_permissions_def by (rule arg_cong)
qed

lemma expected_tree_idem:
  assumes "opt_prop (opt_prop m ''application'') ''$'' \<noteq> JArr []"
  shows "expected_tree (expected_tree m) = expected_tree m"
  unfolding expected_tree_def [of "expected_tree m"]
  by (simp add: expected_app_idem [OF assms] expected_permissions_idem)
     (simp add: expected_tree_def)

lemma not_nullish_selected: "selected c \<Longrightarrow> \<not> nullish c"
  by (cases c) (simp_all add: selected_def isComponentExported_def)

lemma extractable_expected_tree: "extractable (expected_tree m)"
  unfolding extractable_def
proof (intro conjI ballI)
  show "\<not> nullish (expected_tree m)" by (simp add: expected_tree_def)
  show "\<not> nullish (opt_prop (expected_tree m) ''application'')" by simp
next
  fix k c
  assume "k \<in> set componentTypes"
    and "c \<in> set (candidates (opt_prop (expected_tree m) ''application'') k)"
  then have "c \<in> set (kept (opt_prop m ''application'') k)"
    by (simp add: candidates_expected_app)
  then show "\<not> nullish c" by (simp add: kept_def not_nullish_selected)
qed

lemma component_count_expected_tree: "component_count (expected_tree m) = expected_count m"
proof -
  have "map (\<lambda>k. length (children (opt_prop (expected_tree m) ''application'') k)) componentTypes =
        map (\<lambda>k. length (kept (opt_prop m ''application'') k)) componentTypes"
    by (rule map_cong [OF refl]) (simp add: children_expected_app del: children.simps)
  then show ?thesis unfolding component_count_def expected_count_def by (rule arg_cong)
qed

lemma extractExportedComponents_char:
  "fst (extractExportedComponents m v con) =
     (if extractable m then Inr (expected_tree m) else Inl TypeError)"
proof -
  obtain r c where b: "extractExportedComponents_body m v con = (r, c)"
    by (cases "extractExportedComponents_body m v con") auto
  have "r = (if extractable m then Inr (expected_tree m, expected_count m) else Inl TypeError)"
    using extractExportedComponents_body_char [of m v con] b by simp
  then show ?thesis using b by (simp add: extractExportedComponents_def)
qed

lemma isComponentExported_char:
  "\<not> nullish c \<Longrightarrow>
   isComponentExported c =
     Inr (opt_prop (opt_prop c ''$'') EXPORTED = JStr ''true'' \<or>
          opt_prop (opt_prop c ''$'') EXPORTED \<noteq> JStr ''false'' \<and>
          truthy (opt_prop c ''intent-filter''))"
  by (cases c) (auto simp: isComponentExported_def Let_def)

subsection \<open>Parse trees are extractable\<close>

lemma node_not_nullish: "xml2js_node v \<Longrightarrow> \<not> nullish v"
  by (cases v) simp_all

lemma node_entry:
  assumes "xml2js_node (JObj kvs)" and "map_of kvs k = Some v" and "k \<noteq> ''$''" and "k \<noteq> ''_''"
  shows "case v of JArr xs \<Rightarrow> (\<forall>x \<in> set xs. xml2js_node x) | _ \<Rightarrow> xml2js_node v"
proof -
  have "(k, v) \<in> set kvs" using assms(2) by (rule map_of_SomeD)
  moreover have "\<forall>kv \<in> set kvs.
         if fst kv = ''$'' then attribute_map (snd kv)
         else if fst kv = ''_'' then is_text (snd kv)
         else (case snd kv of
                 JArr xs \<Rightarrow> (\<forall>x \<in> set xs. xml2js_node x)
               | v \<Rightarrow> xml2js_node v)"
    using assms(1) by simp
  ultimately have "if fst (k, v) = ''$'' then attribute_map (snd (k, v))
         else if fst (k, v) = ''_'' then is_text (snd (k, v))
         else (case snd (k, v) of
                 JArr xs \<Rightarrow> (\<forall>x \<in> set xs. xml2js_node x)
               | v \<Rightarrow> xml2js_node v)"
    by blast
  then show ?thesis using assms(3,4) by (cases v) simp_all
qed

lemma node_children:
  assumes "xml2js_node v" and "k \<noteq> ''$''" and "k \<noteq> ''_''"
  shows "\<forall>c \<in> set (children v k). xml2js_node c"
proof (cases v)
  case (JObj kvs)
  show ?thesis
  proof (cases "map_of kvs k")
    case None
    with JObj show ?thesis by simp
  next
    case (Some e)
    from node_entry [OF assms(1) [unfolded JObj] Some assms(2,3)] JObj Some
    show ?thesis by (cases e) simp_all
  qed
qed simp_all

lemma candidates_children: "set (candidates v k) \<subseteq> set (children v k)"
  by (cases "opt_prop v k") (auto simp: candidates_def)

lemma node_attrs:
  assumes "xml2js_node v"
  shows "opt_prop v ''$'' = JUndefined \<or> (\<exists>as. opt_prop v ''$'' = JObj as)"
proof (cases v)
  case (JObj kvs)
  show ?thesis
  proof (cases "map_of kvs ''$''")
    case None
    with JObj show ?thesis by simp
  next
    case (Some a)
    then have "(''$'', a) \<in> set kvs" by (rule map_of_SomeD)
    moreover have "\<forall>kv \<in> set kvs. fst kv = ''$'' \<longrightarrow> attribute_map (snd kv)"
      using assms JObj by (simp split: if_splits)
    ultimately have "attribute_map a" by fastforce
    then show ?thesis using JObj Some by (cases a) simp_all
  qed
qed simp_all

lemma parsed_application:
  assumes "xml2js_node m" and "opt_prop m ''application'' \<noteq> JUndefined"
  shows "(\<exists>xs. opt_prop m ''application'' = JArr xs) \<or> xml2js_node (opt_prop m ''application'')"
proof (cases m)
  case (JObj kvs)
  then obtain app where app: "map_of kvs ''application'' = Some app"
    using assms(2) by (cases "map_of kvs ''application''") simp_all
  from node_entry [OF assms(1) [unfolded JObj] app] JObj app
  show ?thesis by (cases app) simp_all
qed (use assms in simp_all)

lemma parsed_extractable:
  assumes "xml2js_node m" and "opt_prop m ''application'' \<noteq> JUndefined"
  shows "extractable m"
  unfolding extractable_def
proof (intro conjI ballI)
  show "\<not> nullish m" using assms(1) by (rule node_not_nullish)
  show "\<not> nullish (opt_prop m ''application'')"
    using parsed_application [OF assms] by (auto dest: node_not_nullish)
next
  fix k c
  assume k: "k \<in> set componentTypes"
    and c: "c \<in> set (candidates (opt_prop m ''application'') k)"
  from parsed_application [OF assms] show "\<not> nullish c"
  proof
    assume "\<exists>xs. opt_prop m ''application'' = JArr xs"
    with c show ?thesis by (auto simp: candidates_def)
  next
    assume node: "xml2js_node (opt_prop m ''application'')"
    have "k \<noteq> ''$''" and "k \<noteq> ''_''" using k by (auto simp: componentTypes_def)
    from node_children [OF node this] c candidates_children
    show ?thesis by (blast dest: node_not_nullish)
  qed
qed

lemma parsed_application_attrs:
  assumes "xml2js_node m" and "opt_prop m ''application'' \<noteq> JUndefined"
  shows "opt_prop (opt_prop m ''application'') ''$'' = JUndefined \<or>
         (\<exists>as. opt_prop (opt_prop m ''application'') ''$'' = JObj as)"
  using parsed_application [OF assms]
proof
  assume "\<exists>xs. opt_prop m ''application'' = JArr xs"
  then show ?thesis by auto
next
  assume "xml2js_node (opt_prop m ''application'')"
  then show ?thesis by (rule node_attrs)
qed

lemma parsed_result:
  assumes "xml2js_node m" and "opt_prop m ''application'' \<noteq> JUndefined"
  shows "fst (extractExportedComponents m verbose con) = Inr (expected_tree m)"
  using parsed_extractable [OF assms] by (simp add: extractExportedComponents_char)

subsection \<open>The sample inputs\<close>

lemma scenario_parsed:
  "xml2js_node scenario_manifest" "opt_prop scenario_manifest ''application'' \<noteq> JUndefined"
  by (simp_all add: scenario_manifest_def main_activity_def exported_activity_def
        background_service_def boot_receiver_def data_provider_def internet_permission_def
        boot_permission_def)

lemma selected_scenario:
  "\<not> selected main_activity" "selected exported_activity" "\<not> selected background_service"
  "selected boot_receiver" "\<not> selected data_provider"
  by (simp_all add: selected_def isComponentExported_def main_activity_def exported_activity_def
        background_service_def boot_receiver_def data_provider_def)

lemma scenario_values:
  "truthy background_service" "normalizeToArray background_service = [background_service]"
  "truthy boot_receiver" "normalizeToArray boot_receiver = [boot_receiver]"
  "truthy data_provider" "normalizeToArray data_provider = [data_provider]"
  by (simp_all add: background_service_def boot_receiver_def data_provider_def)

lemma scenario_expected: "expected_tree scenario_manifest = scenario_output"
  by (simp add: expected_tree_def expected_app_def expected_permissions_def kept_def
        candidates_def componentTypes_def permissionTypes_def scenario_manifest_def
        scenario_output_def selected_scenario scenario_values)

lemma parsed_app_keys:
  assumes "xml2js_node m" and "opt_prop m ''application'' \<noteq> JUndefined"
  shows "map fst (expected_app (opt_prop m ''application'')) =
           ''$'' # filter (\<lambda>k. filter selected (children (opt_prop m ''application'') k) \<noteq> [])
                     componentTypes"
proof -
  have "opt_prop (opt_prop m ''application'') ''$'' \<noteq> JArr []"
    using parsed_application_attrs [OF assms] by auto
  from keys_expected_app [OF this] show ?thesis by (simp only: selected_filter_children)
qed

lemma ordering_parsed:
  "xml2js_node ordering_manifest" "opt_prop ordering_manifest ''application'' \<noteq> JUndefined"
  by (simp_all add: ordering_manifest_def activity_A_def activity_A2_def activity_A3_def
        service_S_def)

lemma selected_ordering:
  "selected activity_A" "\<not> selected activity_A2" "selected activity_A3" "selected service_S"
  by (simp_all add: selected_def isComponentExported_def activity_A_def activity_A2_def
        activity_A3_def service_S_def)

lemma expected_app_no_empty: "JArr [] \<notin> snd ` set (expected_app app)"
  by (auto simp: expected_app_def)

lemma expected_app_keys_kept:
  "k \<in> set componentTypes \<Longrightarrow> kept app k = [] \<Longrightarrow> k \<notin> fst ` set (expected_app app)"
  by (auto simp: expected_app_def componentTypes_def)

lemma children_expected_tree_perm:
  assumes "k \<in> set permissionTypes" and "\<forall>p \<in> set (children m k). attribute_bearing p"
  shows "children (expected_tree m) k = children m k"
proof (cases "opt_prop m k")
  case (JStr s)
  then have "attribute_bearing (JStr s)" using assms(2) by simp
  then show ?thesis by (simp add: attribute_bearing_def)
qed (simp_all add: opt_prop_expected_tree_perm [OF assms(1)])

lemma normalize_children:
  "truthy (opt_prop m k) \<Longrightarrow> normalizeToArray (opt_prop m k) = children m k"
  by (cases "opt_prop m k") simp_all

lemma extras_parsed:
  "xml2js_node manifest_with_extras" "opt_prop manifest_with_extras ''application'' \<noteq> JUndefined"
  by (simp_all add: manifest_with_extras_def)

subsection \<open>The console\<close>

lemma extract_loop_quiet: "snd (extract_loop k False cs t n con) = con"
  by (induction cs arbitrary: t n) (auto split: sum.splits bool.splits)

lemma extractComponentType_quiet: "snd (extractComponentType s t k False con) = con"
  by (simp add: extractComponentType_def extract_loop_quiet split: sum.splits)

lemma extract_types_quiet: "snd (extract_types ks s t False n con) = con"
proof (induction ks arbitrary: t n)
  case Nil
  show ?case by simp
next
  case (Cons k ks)
  obtain r c where step: "extractComponentType s t k False con = (r, c)"
    by (cases "extractComponentType s t k False con") auto
  then have "c = con" using extractComponentType_quiet [of s t k con] by simp
  with step Cons show ?case by (auto split: sum.splits)
qed

lemma extractExportedComponents_quiet:
  "snd (extractExportedComponents m False con) = con"
proof -
  have q: "c = con" if "extract_types componentTypes s t False 0 con = (r, c)" for s t r c
    using extract_types_quiet [of componentTypes s t 0 con] that by simp
  show ?thesis
    by (auto simp: extractExportedComponents_def extractExportedComponents_body_def
          logIfVerbose_def Let_def
          split: sum.splits prod.splits option.splits jsval.splits dest: q)
qed

lemma body_console:
  assumes "extractExportedComponents_body m v con = (Inr (tree, n), con')"
  shows "(v \<longrightarrow> con' \<noteq> [] \<and> last con' = found_line n) \<and> (\<not> v \<longrightarrow> con' = con)"
proof -
  from assms obtain sourceApp targetApp targetApp' c2 where
    loop: "extract_types componentTypes sourceApp targetApp v 0
             (logIfVerbose v (icon_glass @ '' Searching for exported components...'') con) =
           (Inr (targetApp', n), c2)"
    and con': "con' = logIfVerbose v (found_line n) c2"
    by (auto simp: extractExportedComponents_body_def Let_def
          split: sum.splits prod.splits option.splits jsval.splits)
  show ?thesis
  proof (cases v)
    case True
    then show ?thesis using con' by (simp add: logIfVerbose_def)
  next
    case False
    have "c2 = con"
      using loop extract_types_quiet [of componentTypes sourceApp targetApp 0 con] False
      by (simp add: logIfVerbose_def)
    then show ?thesis using con' False by (simp add: logIfVerbose_def)
  qed
qed

lemma found_line_2: "found_line 2 = icon_check @ '' Found 2 exported components''"
proof -
  have "char_of (50 :: nat) = CHR ''2''" by code_simp
  then show ?thesis by (simp add: found_line_def show_nat.simps)
qed

lemma scenario_count: "expected_count scenario_manifest = 2"
  by (simp add: expected_count_def kept_def candidates_def componentTypes_def
        scenario_manifest_def selected_scenario scenario_values)

lemma scenario_body:
  "\<exists>con'. extractExportedComponents_body scenario_manifest verbose con =
            (Inr (scenario_output, 2), con')"
proof -
  obtain r c where b: "extractExportedComponents_body scenario_manifest verbose con = (r, c)"
    by (cases "extractExportedComponents_body scenario_manifest verbose con") auto
  have "fst (extractExportedComponents_body scenario_manifest verbose con) =
        Inr (scenario_output, 2)"
    unfolding extractExportedComponents_body_char
    using parsed_extractable [OF scenario_parsed]
    by (simp add: scenario_expected scenario_count)
  with b show ?thesis by simp
qed

subsection \<open>The pipeline\<close>

lemma get_prop_truthy: "truthy (opt_prop v k) \<Longrightarrow> get_prop v k = Inr (opt_prop v k)"
  by (cases v) simp_all

lemma parseManifestFile_cases:
  "parseManifestFile env inputPath fs =
     (case readFile env fs inputPath of
        Inl d \<Rightarrow> Inl (IOError d)
      | Inr xmlContent \<Rightarrow>
          (case parseStringPromise env xmlContent of
             Inl d \<Rightarrow> Inl (ParseError d)
           | Inr result \<Rightarrow>
               if truthy (opt_prop result ''manifest'') then Inr (opt_prop result ''manifest'')
               else Inl (Error no_manifest_message)))"
  by (simp add: parseManifestFile_def get_prop_truthy split: sum.splits)

lemma extract_manifest_early:
  "parseManifestFile env inputPath fs = Inl e \<Longrightarrow>
   extract_manifest env inputPath outputPath verbose (fs, con) =
     (Inl e, fs,
      logIfVerbose verbose (icon_book @ '' Reading AndroidManifest.xml from: '' @ inputPath) con)"
  by (simp add: extract_manifest_def)

lemma extract_manifest_written:
  assumes "extract_manifest env inputPath outputPath verbose (fs, con) = (r, fs', con')"
    and "fs' \<noteq> fs"
  shows "\<exists>manifest tree outputXml.
           parseManifestFile env inputPath fs = Inr manifest \<and>
           fst (extractExportedComponents manifest verbose
                  (logIfVerbose verbose
                     (icon_book @ '' Reading AndroidManifest.xml from: '' @ inputPath) con)) =
             Inr tree \<and>
           buildObject env tree = Inr outputXml \<and>
           fs' = snd (writeFile env fs outputPath outputXml)"
  using assms
  by (auto simp: extract_manifest_def writeOutputFile_def Let_def
        split: sum.splits prod.splits option.splits)

lemma sample_read: "readFile sample_env (sample_files text) ''AndroidManifest.xml'' = Inr text"
  by (simp add: sample_env_def sample_files_def)

lemma sample_parse:
  "parseStringPromise sample_env ''<manifest><application>'' =
     Inl (''Unclosed root tag'' @ [CHR 0x0A] @ ''Line: 0'' @ [CHR 0x0A] @
          ''Column: 23'' @ [CHR 0x0A] @ ''Char: '')"
  "parseStringPromise sample_env ''<root></root>'' = Inr (JObj [(''root'', JStr [])])"
  "parseStringPromise sample_env [] = Inr JNull"
  "parseStringPromise sample_env ''<manifest><uses-sdk/></manifest>'' =
     Inr (JObj [(''manifest'', JObj [(''uses-sdk'', JStr [])])])"
  by (simp_all add: sample_env_def parser_answers_def)

text \<open>
  The pipeline on a manifest without an application element: the extraction throws and
  nothing is written.
\<close>

lemma pipeline_without_application:
  "extract_manifest sample_env ''AndroidManifest.xml'' ''AndroidManifestExported.xml'' False
       (sample_files ''<manifest><uses-sdk/></manifest>'', []) =
     (Inl TypeError, sample_files ''<manifest><uses-sdk/></manifest>'', [])"
proof -
  let ?m = "JObj [(''uses-sdk'', JStr [])]"
  have p: "parseManifestFile sample_env ''AndroidManifest.xml''
             (sample_files ''<manifest><uses-sdk/></manifest>'') = Inr ?m"
    by (simp add: parseManifestFile_cases sample_read sample_parse)
  have "snd (extractExportedComponents ?m False []) = []"
    by (rule extractExportedComponents_quiet)
  moreover have "fst (extractExportedComponents ?m False []) = Inl TypeError"
    by (simp add: extractExportedComponents_char extractable_def)
  ultimately have "extractExportedComponents ?m False [] = (Inl TypeError, [])"
    by (simp add: prod_eq_iff)
  then show ?thesis using p by (simp add: extract_manifest_def logIfVerbose_def)
qed

lemma preserved_with_attribute_bearing_permissions:
  assumes "xml2js_node m" and "opt_prop m ''application'' \<noteq> JUndefined"
    and "\<forall>pt \<in> set permissionTypes. \<forall>p \<in> set (children m pt). attribute_bearing p"
  shows "\<exists>out.
           fst (extractExportedComponents m verbose con) = Inr out \<and>
           opt_prop out ''$'' = opt_prop m ''$'' \<and>
           opt_prop (opt_prop out ''application'') ''$'' =
             (case opt_prop (opt_prop m ''application'') ''$'' of
                JUndefined \<Rightarrow> JObj [] | attrs \<Rightarrow> attrs) \<and>
           (\<forall>k \<in> set componentTypes.
              \<forall>c \<in> set (children (opt_prop m ''application'') k).
                selected c \<longrightarrow> c \<in> set (children (opt_prop out ''application'') k)) \<and>
           (\<forall>pt \<in> set permissionTypes. children out pt = children m pt)"
proof (intro exI conjI ballI impI)
  show "fst (extractExportedComponents m verbose con) = Inr (expected_tree m)"
    by (rule parsed_result [OF assms(1,2)])
  show "opt_prop (expected_tree m) ''$'' = opt_prop m ''$''" by simp
  have a: "opt_prop (opt_prop m ''application'') ''$'' \<noteq> JArr []"
    using parsed_application_attrs [OF assms(1,2)] by auto
  show "opt_prop (opt_prop (expected_tree m) ''application'') ''$'' =
          (case opt_prop (opt_prop m ''application'') ''$'' of
             JUndefined \<Rightarrow> JObj [] | attrs \<Rightarrow> attrs)"
    using parsed_application_attrs [OF assms(1,2)]
    by (auto simp: opt_prop_expected_app_attrs [OF a] simp del: opt_prop.simps)
next
  fix k c
  assume k: "k \<in> set componentTypes"
    and c: "c \<in> set (children (opt_prop m ''application'') k)" and s: "selected c"
  have "c \<in> set (filter selected (children (opt_prop m ''application'') k))"
    using c s by simp
  then show "c \<in> set (children (opt_prop (expected_tree m) ''application'') k)"
    using k by (simp only: selected_filter_children opt_prop_expected_tree children_expected_app)
next
  fix pt assume pt: "pt \<in> set permissionTypes"
  with assms(3) have "\<forall>p \<in> set (children m pt). attribute_bearing p" by blast
  from children_expected_tree_perm [OF pt this]
  show "children (expected_tree m) pt = children m pt" .
qed

section \<open>The claims\<close>

text \<open>
  C1. The claim: the predicate selects a component if and only if its exported attribute
  is the string "true", or the attribute is unset and the component owns at least one
  intent-filter child; never when the attribute is "false". The source tests the
  truthiness of the \<^verbatim>\<open>intent-filter\<close> entry, and an empty intent-filter tag parses to
  the empty string: the receiver below owns one intent-filter child, has no exported
  attribute, and is not selected. (On every other component the predicate is as claimed:
  \<open>isComponentExported_char\<close>.)
\<close>

theorem empty_intent_filter_not_selected:
  "children receiver_with_empty_filter ''intent-filter'' = [JStr []] \<and>
   opt_prop (opt_prop receiver_with_empty_filter ''$'') EXPORTED = JUndefined \<and>
   isComponentExported receiver_with_empty_filter = Inr False"
  by (simp add: receiver_with_empty_filter_def isComponentExported_def)

text \<open>
  C2. The claim: on a manifest without an application element the extraction succeeds
  and returns a manifest with no component. The source reads
  \<^verbatim>\<open>sourceApp[componentType]\<close> on the missing application and throws a TypeError.
\<close>

theorem absent_application_throws:
  "opt_prop manifest_without_application ''application'' = JUndefined \<and>
   fst (extractExportedComponents manifest_without_application verbose con) = Inl TypeError"
  by (simp add: extractExportedComponents_char extractable_def manifest_without_application_def)

text \<open>
  C3. The filter is idempotent: on a parsed manifest with an application element the
  extraction returns a tree, and the extraction of that tree returns the same tree,
  whatever the verbosity and the console of either run.
\<close>

theorem filter_idempotent:
  assumes "xml2js_node m" and "opt_prop m ''application'' \<noteq> JUndefined"
  shows "\<exists>out. fst (extractExportedComponents m verbose con) = Inr out \<and>
               fst (extractExportedComponents out verbose' con') = Inr out"
proof -
  have a: "opt_prop (opt_prop m ''application'') ''$'' \<noteq> JArr []"
    using parsed_application_attrs [OF assms] by auto
  have "fst (extractExportedComponents (expected_tree m) verbose' con') = Inr (expected_tree m)"
    by (simp add: extractExportedComponents_char extractable_expected_tree expected_tree_idem [OF a])
  with parsed_result [OF assms] show ?thesis by blast
qed

theorem filter_idempotent_witness:
  "xml2js_node scenario_manifest \<and>
   opt_prop scenario_manifest ''application'' \<noteq> JUndefined \<and>
   fst (extractExportedComponents scenario_manifest False []) = Inr scenario_output \<and>
   fst (extractExportedComponents scenario_output True []) = Inr scenario_output"
proof -
  have first: "fst (extractExportedComponents scenario_manifest False []) = Inr scenario_output"
    using parsed_result [OF scenario_parsed] by (simp add: scenario_expected)
  from filter_idempotent [OF scenario_parsed, of False "[]" True "[]"] first
  have "fst (extractExportedComponents scenario_output True []) = Inr scenario_output"
    by auto
  with first scenario_parsed show ?thesis by simp
qed

text \<open>
  C5. Within each kind the output holds the selected components in their source order
  (the selected ones of the input's sequence, filtered in place), and the kinds of the
  output application follow the attributes in the fixed order activity, service,
  receiver, provider, whatever the order of the input's keys.
\<close>

theorem order_preserved:
  assumes "xml2js_node m" and "opt_prop m ''application'' \<noteq> JUndefined"
  shows "\<exists>out kvs.
           fst (extractExportedComponents m verbose con) = Inr out \<and>
           opt_prop out ''application'' = JObj kvs \<and>
           (\<forall>k \<in> set componentTypes.
              children (JObj kvs) k = filter selected (children (opt_prop m ''application'') k)) \<and>
           map fst kvs =
             ''$'' # filter (\<lambda>k. filter selected (children (opt_prop m ''application'') k) \<noteq> [])
                       componentTypes"
proof (intro exI conjI ballI)
  show "fst (extractExportedComponents m verbose con) = Inr (expected_tree m)"
    by (rule parsed_result [OF assms])
  show "opt_prop (expected_tree m) ''application'' = JObj (expected_app (opt_prop m ''application''))"
    by simp
  show "map fst (expected_app (opt_prop m ''application'')) =
          ''$'' # filter (\<lambda>k. filter selected (children (opt_prop m ''application'') k) \<noteq> [])
                    componentTypes"
    by (rule parsed_app_keys [OF assms])
next
  fix k assume "k \<in> set componentTypes"
  then show "children (JObj (expected_app (opt_prop m ''application''))) k =
             filter selected (children (opt_prop m ''application'') k)"
    by (simp only: children_expected_app selected_filter_children)
qed

theorem order_preserved_witness:
  "xml2js_node ordering_manifest \<and>
   opt_prop ordering_manifest ''application'' \<noteq> JUndefined \<and>
   (\<exists>out kvs.
      fst (extractExportedComponents ordering_manifest False []) = Inr out \<and>
      opt_prop out ''application'' = JObj kvs \<and>
      children (JObj kvs) ACTIVITY = [activity_A, activity_A3] \<and>
      children (JObj kvs) SERVICE = [service_S] \<and>
      map fst kvs = [''$'', ACTIVITY, SERVICE])"
proof -
  have a: "filter selected (children (opt_prop ordering_manifest ''application'') ACTIVITY) =
           [activity_A, activity_A3]"
    by (simp add: ordering_manifest_def selected_ordering)
  have s: "filter selected (children (opt_prop ordering_manifest ''application'') SERVICE) =
           [service_S]"
  proof -
    have "children (opt_prop ordering_manifest ''application'') SERVICE = [service_S]"
      by (simp add: ordering_manifest_def service_S_def)
    then show ?thesis by (simp only: filter.simps selected_ordering if_True)
  qed
  have r: "children (opt_prop ordering_manifest ''application'') RECEIVER = []"
    and p: "children (opt_prop ordering_manifest ''application'') PROVIDER = []"
    by (simp_all add: ordering_manifest_def)
  from order_preserved [OF ordering_parsed, of False "[]"]
  obtain out kvs where
    "fst (extractExportedComponents ordering_manifest False []) = Inr out"
    "opt_prop out ''application'' = JObj kvs"
    "\<forall>k \<in> set componentTypes.
       children (JObj kvs) k =
       filter selected (children (opt_prop ordering_manifest ''application'') k)"
    "map fst kvs =
       ''$'' # filter (\<lambda>k. filter selected
                               (children (opt_prop ordering_manifest ''application'') k) \<noteq> [])
                 componentTypes"
    by (elim exE conjE) (rule that, assumption+)
  then have "fst (extractExportedComponents ordering_manifest False []) = Inr out \<and>
      opt_prop out ''application'' = JObj kvs \<and>
      children (JObj kvs) ACTIVITY = [activity_A, activity_A3] \<and>
      children (JObj kvs) SERVICE = [service_S] \<and>
      map fst kvs = [''$'', ACTIVITY, SERVICE]"
    using a s r p by (simp add: componentTypes_def del: children.simps)
  then have ex: "\<exists>out kvs.
      fst (extractExportedComponents ordering_manifest False []) = Inr out \<and>
      opt_prop out ''application'' = JObj kvs \<and>
      children (JObj kvs) ACTIVITY = [activity_A, activity_A3] \<and>
      children (JObj kvs) SERVICE = [service_S] \<and>
      map fst kvs = [''$'', ACTIVITY, SERVICE]"
    by - (rule exI, rule exI, assumption)
  show ?thesis by (intro conjI ordering_parsed ex)
qed

text \<open>
  C6. The output application has no empty collection: none of its entries is an empty
  array, and a kind of which no component qualifies has no entry at all. (The pipeline
  hands exactly this tree to the builder.)
\<close>

theorem empty_kinds_omitted:
  assumes "xml2js_node m" and "opt_prop m ''application'' \<noteq> JUndefined"
  shows "\<exists>out kvs.
           fst (extractExportedComponents m verbose con) = Inr out \<and>
           opt_prop out ''application'' = JObj kvs \<and>
           JArr [] \<notin> snd ` set kvs \<and>
           (\<forall>k \<in> set componentTypes.
              filter selected (children (opt_prop m ''application'') k) = [] \<longrightarrow>
              k \<notin> fst ` set kvs)"
proof (intro exI conjI ballI impI)
  show "fst (extractExportedComponents m verbose con) = Inr (expected_tree m)"
    by (rule parsed_result [OF assms])
  show "opt_prop (expected_tree m) ''application'' = JObj (expected_app (opt_prop m ''application''))"
    by simp
  show "JArr [] \<notin> snd ` set (expected_app (opt_prop m ''application''))"
    by (rule expected_app_no_empty)
next
  fix k
  assume "k \<in> set componentTypes"
    and "filter selected (children (opt_prop m ''application'') k) = []"
  then show "k \<notin> fst ` set (expected_app (opt_prop m ''application''))"
    by (simp only: selected_filter_children expected_app_keys_kept not_False_eq_True)
qed

theorem empty_kinds_omitted_witness:
  "xml2js_node scenario_manifest \<and>
   opt_prop scenario_manifest ''application'' \<noteq> JUndefined \<and>
   filter selected (children (opt_prop scenario_manifest ''application'') SERVICE) = [] \<and>
   (\<exists>out kvs.
      fst (extractExportedComponents scenario_manifest True []) = Inr out \<and>
      opt_prop out ''application'' = JObj kvs \<and>
      JArr [] \<notin> snd ` set kvs \<and>
      SERVICE \<notin> fst ` set kvs)"
proof -
  have "children (opt_prop scenario_manifest ''application'') SERVICE = [background_service]"
    by (simp add: scenario_manifest_def background_service_def)
  then have none: "filter selected (children (opt_prop scenario_manifest ''application'') SERVICE) = []"
    by (simp only: filter.simps selected_scenario if_False)
  from empty_kinds_omitted [OF scenario_parsed, of True "[]"]
  obtain out kvs where
    "fst (extractExportedComponents scenario_manifest True []) = Inr out"
    "opt_prop out ''application'' = JObj kvs"
    "JArr [] \<notin> snd ` set kvs"
    "\<forall>k \<in> set componentTypes.
       filter selected (children (opt_prop scenario_manifest ''application'') k) = [] \<longrightarrow>
       k \<notin> fst ` set kvs"
    by (elim exE conjE) (rule that, assumption+)
  then have "fst (extractExportedComponents scenario_manifest True []) = Inr out \<and>
      opt_prop out ''application'' = JObj kvs \<and>
      JArr [] \<notin> snd ` set kvs \<and>
      SERVICE \<notin> fst ` set kvs"
    using none by (simp add: componentTypes_def del: children.simps)
  then have ex: "\<exists>out kvs.
      fst (extractExportedComponents scenario_manifest True []) = Inr out \<and>
      opt_prop out ''application'' = JObj kvs \<and>
      JArr [] \<notin> snd ` set kvs \<and>
      SERVICE \<notin> fst ` set kvs"
    by - (rule exI, rule exI, assumption)
  show ?thesis by (intro conjI scenario_parsed none ex)
qed

text \<open>
  C7. The claim: every selected component is in the output with its attributes and
  children unchanged, and the manifest's attributes, the application's attributes and all
  \<^verbatim>\<open>permission\<close> and \<^verbatim>\<open>uses-permission\<close> declarations are carried into the output
  unconditionally. The source copies a kind of declaration under the guard
  \<^verbatim>\<open>if (source[permissionType])\<close>, and a single empty declaration without attributes
  parses to the empty string: the manifest below has one \<^verbatim>\<open>permission\<close> declaration
  and the output has none. (Where every declaration carries attributes all of the claim
  holds: \<open>preserved_with_attribute_bearing_permissions\<close>.)
\<close>

theorem bare_permission_dropped:
  "xml2js_node manifest_with_bare_permission \<and>
   children manifest_with_bare_permission ''permission'' = [JStr []] \<and>
   fst (extractExportedComponents manifest_with_bare_permission verbose con) =
     Inr (JObj [(''$'', JObj [(''package'', JStr ''com.example.app'')]),
                (''application'', JObj [(''$'', JObj [(''android:label'', JStr ''Example'')])])])"
proof -
  have p: "xml2js_node manifest_with_bare_permission"
    "opt_prop manifest_with_bare_permission ''application'' \<noteq> JUndefined"
    by (simp_all add: manifest_with_bare_permission_def)
  have "expected_tree manifest_with_bare_permission =
          JObj [(''$'', JObj [(''package'', JStr ''com.example.app'')]),
                (''application'', JObj [(''$'', JObj [(''android:label'', JStr ''Example'')])])]"
    by (simp add: expected_tree_def expected_app_def expected_permissions_def kept_def
          candidates_def componentTypes_def permissionTypes_def manifest_with_bare_permission_def)
  then show ?thesis
    using parsed_result [OF p, of verbose con] p(1)
    by (simp add: manifest_with_bare_permission_def)
qed

text \<open>
  C10. The shape of the output, entry by entry: the manifest object holds the input's
  manifest attributes under \<^verbatim>\<open>$\<close>, then the application object, then \<^verbatim>\<open>permission\<close>
  and \<^verbatim>\<open>uses-permission\<close> where the input has them, each the array of the input's
  declarations, and nothing else; the application object holds the input's application
  attributes under \<^verbatim>\<open>$\<close> (the empty map when it has none), then the kinds with a
  selected component, each the array of its selected components, and nothing else.
\<close>

theorem output_shape:
  assumes "xml2js_node m" and "opt_prop m ''application'' \<noteq> JUndefined"
  shows "fst (extractExportedComponents m verbose con) =
     Inr (JObj
       ([(''$'', opt_prop m ''$''),
         (''application'',
          JObj ((''$'', case opt_prop (opt_prop m ''application'') ''$'' of
                          JUndefined \<Rightarrow> JObj [] | attrs \<Rightarrow> attrs) #
                map (\<lambda>k. (k, JArr (filter selected (children (opt_prop m ''application'') k))))
                  (filter (\<lambda>k. filter selected (children (opt_prop m ''application'') k) \<noteq> [])
                     componentTypes)))] @
        map (\<lambda>pt. (pt, JArr (children m pt)))
          (filter (\<lambda>pt. truthy (opt_prop m pt)) permissionTypes)))"
proof -
  let ?app = "opt_prop m ''application''"
  have a: "(if truthy (opt_prop ?app ''$'') then opt_prop ?app ''$'' else JObj []) =
           (case opt_prop ?app ''$'' of JUndefined \<Rightarrow> JObj [] | attrs \<Rightarrow> attrs)"
    and ne: "(if truthy (opt_prop ?app ''$'') then opt_prop ?app ''$'' else JObj []) \<noteq> JArr []"
    using parsed_application_attrs [OF assms] by auto
  have kinds: "filter (\<lambda>kv. snd kv \<noteq> JArr []) (map (\<lambda>k. (k, JArr (kept ?app k))) ks) =
               map (\<lambda>k. (k, JArr (kept ?app k))) (filter (\<lambda>k. kept ?app k \<noteq> []) ks)" for ks
    by (induction ks) simp_all
  have app: "expected_app ?app =
        (''$'', case opt_prop ?app ''$'' of JUndefined \<Rightarrow> JObj [] | attrs \<Rightarrow> attrs) #
        map (\<lambda>k. (k, JArr (filter selected (children ?app k))))
          (filter (\<lambda>k. filter selected (children ?app k) \<noteq> []) componentTypes)"
    unfolding expected_app_def selected_filter_children
    using ne by (simp add: kinds a)
  have perms: "expected_permissions m =
        map (\<lambda>pt. (pt, JArr (children m pt))) (filter (\<lambda>pt. truthy (opt_prop m pt)) permissionTypes)"
    by (simp add: expected_permissions_def permissionTypes_def normalize_children
          del: children.simps)
  show ?thesis
    unfolding parsed_result [OF assms] expected_tree_def app perms ..
qed

theorem output_shape_witness:
  "xml2js_node manifest_with_extras \<and>
   opt_prop manifest_with_extras ''application'' \<noteq> JUndefined \<and>
   opt_prop manifest_with_extras ''uses-sdk'' \<noteq> JUndefined \<and>
   opt_prop (opt_prop manifest_with_extras ''application'') ''meta-data'' \<noteq> JUndefined \<and>
   fst (extractExportedComponents manifest_with_extras False []) = Inr extras_output \<and>
   opt_prop extras_output ''uses-sdk'' = JUndefined \<and>
   opt_prop (opt_prop extras_output ''application'') ''meta-data'' = JUndefined"
proof -
  have extra: "opt_prop manifest_with_extras ''uses-sdk'' \<noteq> JUndefined"
    "opt_prop (opt_prop manifest_with_extras ''application'') ''meta-data'' \<noteq> JUndefined"
    by (simp_all add: manifest_with_extras_def)
  have gone: "opt_prop extras_output ''uses-sdk'' = JUndefined"
    "opt_prop (opt_prop extras_output ''application'') ''meta-data'' = JUndefined"
    by (simp_all add: extras_output_def)
  have run: "fst (extractExportedComponents manifest_with_extras False []) = Inr extras_output"
    unfolding output_shape [OF extras_parsed, of False "[]"]
    by (simp add: manifest_with_extras_def extras_output_def componentTypes_def
          permissionTypes_def selected_def isComponentExported_def)
  show ?thesis by (intro conjI extras_parsed extra run gone)
qed

text \<open>
  C9. The verbosity flag is observational: the returned tree (or the error) and the
  counter \<^verbatim>\<open>totalFound\<close> are the same with and without it, whatever the consoles.
\<close>

theorem verbosity_is_observational:
  "fst (extractExportedComponents m True con) = fst (extractExportedComponents m False con') \<and>
   fst (extractExportedComponents_body m True con) =
   fst (extractExportedComponents_body m False con')"
  by (simp only: extractExportedComponents_char extractExportedComponents_body_char)

text \<open>
  C4, as amended. The extraction returns the filtered tree alone. The counter
  \<^verbatim>\<open>totalFound\<close> it computes equals the number of components in the returned tree; in
  verbose mode the last line printed reports it, and otherwise nothing is printed.
\<close>

theorem count_is_reported:
  assumes "extractExportedComponents_body m verbose con = (Inr (tree, totalFound), con')"
  shows "extractExportedComponents m verbose con = (Inr tree, con') \<and>
         totalFound = component_count tree \<and>
         (verbose \<longrightarrow> con' \<noteq> [] \<and> last con' = found_line (component_count tree)) \<and>
         (\<not> verbose \<longrightarrow> con' = con)"
proof -
  have "fst (extractExportedComponents_body m verbose con) = Inr (tree, totalFound)"
    using assms by simp
  then have "extractable m" and "tree = expected_tree m" and "totalFound = expected_count m"
    unfolding extractExportedComponents_body_char by (auto split: if_splits)
  then have n: "totalFound = component_count tree"
    by (simp add: component_count_expected_tree)
  have r: "extractExportedComponents m verbose con = (Inr tree, con')"
    using assms by (simp add: extractExportedComponents_def)
  from body_console [OF assms] n r show ?thesis by simp
qed

theorem count_is_reported_witness:
  "\<exists>con'. extractExportedComponents_body scenario_manifest True [] =
            (Inr (scenario_output, 2), con') \<and>
          extractExportedComponents scenario_manifest True [] = (Inr scenario_output, con') \<and>
          component_count scenario_output = 2 \<and>
          last con' = icon_check @ '' Found 2 exported components''"
proof -
  from scenario_body [of True "[]"] obtain con' where
    b: "extractExportedComponents_body scenario_manifest True [] = (Inr (scenario_output, 2), con')"
    by (elim exE)
  from count_is_reported [OF b]
  have "extractExportedComponents scenario_manifest True [] = (Inr scenario_output, con')"
    and "2 = component_count scenario_output"
    and "last con' = found_line (component_count scenario_output)"
    by simp_all
  then have "extractExportedComponents_body scenario_manifest True [] =
            (Inr (scenario_output, 2), con') \<and>
          extractExportedComponents scenario_manifest True [] = (Inr scenario_output, con') \<and>
          component_count scenario_output = 2 \<and>
          last con' = icon_check @ '' Found 2 exported components''"
    using b found_line_2 by simp
  then show ?thesis by - (rule exI, assumption)
qed

text \<open>
  The claim of C4 as written has the count returned beside the tree. On the end-to-end
  scenario without the verbosity flag the operation returns the tree, which has no count
  in it, and prints nothing.
\<close>

theorem count_not_returned:
  "extractExportedComponents scenario_manifest False [] = (Inr scenario_output, [])"
proof -
  from scenario_body [of False "[]"] obtain con' where
    b: "extractExportedComponents_body scenario_manifest False [] = (Inr (scenario_output, 2), con')"
    by (elim exE)
  from body_console [OF b] have "con' = []" by simp
  with b show ?thesis by (simp add: extractExportedComponents_def)
qed

text \<open>
  C8, as amended. When the input file is read and the parser rejects its text, the
  pipeline fails with the parser's diagnostic as a ParseError and leaves the file system as
  it was; when the parser resolves and the result has no \<^verbatim>\<open>manifest\<close> entry (another
  root element, or the \<^verbatim>\<open>null\<close> the parser resolves on an empty text), the pipeline
  fails with the error of the message "no manifest root element found" and leaves the file
  system as it was. Whenever the file system has changed, the filtered tree had been built
  and the change is the one write of its serialization.
\<close>

theorem failures_write_nothing:
  assumes "readFile env fs inputPath = Inr xmlContent"
  shows
    "(\<forall>d. parseStringPromise env xmlContent = Inl d \<longrightarrow>
        extract_manifest env inputPath outputPath verbose (fs, con) =
          (Inl (ParseError d), fs,
           logIfVerbose verbose (icon_book @ '' Reading AndroidManifest.xml from: '' @ inputPath) con)) \<and>
     (\<forall>result. parseStringPromise env xmlContent = Inr result \<and>
               opt_prop result ''manifest'' = JUndefined \<longrightarrow>
        extract_manifest env inputPath outputPath verbose (fs, con) =
          (Inl (Error no_manifest_message), fs,
           logIfVerbose verbose (icon_book @ '' Reading AndroidManifest.xml from: '' @ inputPath) con)) \<and>
     (\<forall>r fs' con'.
        extract_manifest env inputPath outputPath verbose (fs, con) = (r, fs', con') \<and> fs' \<noteq> fs \<longrightarrow>
        (\<exists>result tree outputXml.
           parseStringPromise env xmlContent = Inr result \<and>
           fst (extractExportedComponents (opt_prop result ''manifest'') verbose
                  (logIfVerbose verbose
                     (icon_book @ '' Reading AndroidManifest.xml from: '' @ inputPath) con)) =
             Inr tree \<and>
           buildObject env tree = Inr outputXml \<and>
           fs' = snd (writeFile env fs outputPath outputXml)))"
proof (intro conjI allI impI)
  fix d assume "parseStringPromise env xmlContent = Inl d"
  then have "parseManifestFile env inputPath fs = Inl (ParseError d)"
    using assms by (simp add: parseManifestFile_cases)
  then show "extract_manifest env inputPath outputPath verbose (fs, con) =
          (Inl (ParseError d), fs,
           logIfVerbose verbose (icon_book @ '' Reading AndroidManifest.xml from: '' @ inputPath) con)"
    by (rule extract_manifest_early)
next
  fix result
  assume "parseStringPromise env xmlContent = Inr result \<and> opt_prop result ''manifest'' = JUndefined"
  then have "parseManifestFile env inputPath fs = Inl (Error no_manifest_message)"
    using assms by (simp add: parseManifestFile_cases)
  then show "extract_manifest env inputPath outputPath verbose (fs, con) =
          (Inl (Error no_manifest_message), fs,
           logIfVerbose verbose (icon_book @ '' Reading AndroidManifest.xml from: '' @ inputPath) con)"
    by (rule extract_manifest_early)
next
  fix r fs' con'
  assume "extract_manifest env inputPath outputPath verbose (fs, con) = (r, fs', con') \<and> fs' \<noteq> fs"
  then obtain manifest tree outputXml where
    p: "parseManifestFile env inputPath fs = Inr manifest"
    and t: "fst (extractExportedComponents manifest verbose
                  (logIfVerbose verbose
                     (icon_book @ '' Reading AndroidManifest.xml from: '' @ inputPath) con)) =
             Inr tree"
    and b: "buildObject env tree = Inr outputXml"
    and w: "fs' = snd (writeFile env fs outputPath outputXml)"
    using extract_manifest_written [of env inputPath outputPath verbose fs con r fs' con']
    by (elim conjE) blast
  from p assms obtain result where
    "parseStringPromise env xmlContent = Inr result" "manifest = opt_prop result ''manifest''"
    by (auto simp: parseManifestFile_cases split: sum.splits if_splits)
  with t b w show "\<exists>result tree outputXml.
           parseStringPromise env xmlContent = Inr result \<and>
           fst (extractExportedComponents (opt_prop result ''manifest'') verbose
                  (logIfVerbose verbose
                     (icon_book @ '' Reading AndroidManifest.xml from: '' @ inputPath) con)) =
             Inr tree \<and>
           buildObject env tree = Inr outputXml \<and>
           fs' = snd (writeFile env fs outputPath outputXml)"
    by blast
qed

theorem failures_write_nothing_witness:
  "readFile sample_env (sample_files ''<manifest><application>'') ''AndroidManifest.xml'' =
     Inr ''<manifest><application>'' \<and>
   parseStringPromise sample_env ''<manifest><application>'' =
     Inl (''Unclosed root tag'' @ [CHR 0x0A] @ ''Line: 0'' @ [CHR 0x0A] @
          ''Column: 23'' @ [CHR 0x0A] @ ''Char: '') \<and>
   extract_manifest sample_env ''AndroidManifest.xml'' ''AndroidManifestExported.xml'' False
       (sample_files ''<manifest><application>'', []) =
     (Inl (ParseError (''Unclosed root tag'' @ [CHR 0x0A] @ ''Line: 0'' @ [CHR 0x0A] @
                       ''Column: 23'' @ [CHR 0x0A] @ ''Char: '')),
      sample_files ''<manifest><application>'', []) \<and>
   readFile sample_env (sample_files ''<root></root>'') ''AndroidManifest.xml'' = Inr ''<root></root>'' \<and>
   parseStringPromise sample_env ''<root></root>'' = Inr (JObj [(''root'', JStr [])]) \<and>
   extract_manifest sample_env ''AndroidManifest.xml'' ''AndroidManifestExported.xml'' False
       (sample_files ''<root></root>'', []) =
     (Inl (Error ''Invalid AndroidManifest.xml file - no manifest root element found''),
      sample_files ''<root></root>'', [])"
proof -
  have a: "extract_manifest sample_env ''AndroidManifest.xml'' ''AndroidManifestExported.xml'' False
       (sample_files ''<manifest><application>'', []) =
     (Inl (ParseError (''Unclosed root tag'' @ [CHR 0x0A] @ ''Line: 0'' @ [CHR 0x0A] @
                       ''Column: 23'' @ [CHR 0x0A] @ ''Char: '')),
      sample_files ''<manifest><application>'', [])"
    using failures_write_nothing [OF sample_read, of "''<manifest><application>''"
        "''AndroidManifestExported.xml''" False "[]"] sample_parse(1)
    by (simp add: logIfVerbose_def)
  have "opt_prop (JObj [(''root'', JStr [])]) ''manifest'' = JUndefined" by simp
  then have b: "extract_manifest sample_env ''AndroidManifest.xml'' ''AndroidManifestExported.xml'' False
       (sample_files ''<root></root>'', []) =
     (Inl (Error ''Invalid AndroidManifest.xml file - no manifest root element found''),
      sample_files ''<root></root>'', [])"
    using failures_write_nothing [OF sample_read, of "''<root></root>''"
        "''AndroidManifestExported.xml''" False "[]"] sample_parse(2)
    by (simp add: logIfVerbose_def no_manifest_message_def)
  show ?thesis by (intro conjI sample_read sample_parse(1,2) a b)
qed

text \<open>
  The claim of C8 as written has every text that is not well-formed markup fail with a
  ParseError. The empty text is not a well-formed document, the parser resolves
  \<^verbatim>\<open>null\<close> on it without a diagnostic, and the pipeline fails with the error of the
  missing manifest root.
\<close>

theorem empty_text_is_no_parse_error:
  "readFile sample_env (sample_files []) ''AndroidManifest.xml'' = Inr [] \<and>
   parseStringPromise sample_env [] = Inr JNull \<and>
   extract_manifest sample_env ''AndroidManifest.xml'' ''AndroidManifestExported.xml'' False
       (sample_files [], []) =
     (Inl (Error ''Invalid AndroidManifest.xml file - no manifest root element found''),
      sample_files [], [])"
proof -
  have "parseManifestFile sample_env ''AndroidManifest.xml'' (sample_files []) =
        Inl (Error no_manifest_message)"
    by (simp add: parseManifestFile_cases sample_read sample_parse)
  then have "extract_manifest sample_env ''AndroidManifest.xml'' ''AndroidManifestExported.xml''
       False (sample_files [], []) =
     (Inl (Error ''Invalid AndroidManifest.xml file - no manifest root element found''),
      sample_files [], [])"
    by (simp add: extract_manifest_early logIfVerbose_def no_manifest_message_def)
  then show ?thesis by (intro conjI sample_read sample_parse(3))
qed

end
